theory Spec2Isabelle
  imports Complex_Main
begin

section \<open>Data model of the cell HARQ manager\<close>

text \<open>
  The embedding follows \<^verbatim>\<open>lib/scheduler/ue_scheduling/cell_harq_manager.cpp\<close>.
  A pointer or reference to a HARQ process is the index of the process in the flat
  array \<^verbatim>\<open>harqs\<close> (what \<^verbatim>\<open>get_harq_ref_idx\<close> computes). A
  \<^verbatim>\<open>std::vector\<close> is a list in the same order: \<^verbatim>\<open>back()\<close> is
  \<open>last\<close>, \<^verbatim>\<open>pop_back()\<close> is \<open>butlast\<close>, \<^verbatim>\<open>push_back(x)\<close>
  appends \<open>[x]\<close>. Indexing a vector out of range is undefined behaviour in the source;
  the theorems below state the ranges they need.
\<close>

datatype harq_state_t = empty_harq | waiting_ack | pending_retx

datatype mac_harq_ack_report_status = nack | ack | dtx

datatype status_update = acked | nacked | no_update | error

text \<open>
  Modelled from the spec: the macros \<^verbatim>\<open>srsran_assert\<close> and
  \<^verbatim>\<open>srsran_sanity_check\<close> are declared outside the sources at hand. The spec
  treats a logic or invariant violation as a fatal assertion; a function that can trip
  one returns \<open>Inl\<close> of the assertion that failed.
\<close>

datatype assertion = invalid_number_of_harqs | duplicate_ue_index | harq_in_wrong_state

text \<open>
  Modelled from the spec: \<^verbatim>\<open>slot_point\<close> is declared outside the sources at hand.
  A slot is the count of the slot clock, a natural number; \<^verbatim>\<open>to_uint()\<close> reads it and
  \<^verbatim>\<open>+\<close> adds a number of slots. The signal quality \<^verbatim>\<open>std::optional<float>\<close>
  is a \<open>real option\<close> (no NaN).
\<close>

type_synonym slot_point = nat

text \<open>
  The HARQ process record \<^verbatim>\<open>harq_type\<close>: the common fields the repository writes,
  the size of the previous transmission (\<^verbatim>\<open>prev_tx_params.tbs_bytes\<close>) and the
  downlink fields that \<^verbatim>\<open>new_dl_tx\<close> and \<^verbatim>\<open>dl_ack_info\<close> use. An uplink
  process leaves the downlink fields alone.
\<close>

record harq_type =
  ue_idx :: nat
  h_id :: nat
  status :: harq_state_t
  slot_tx :: slot_point
  slot_ack :: slot_point
  slot_ack_timeout :: slot_point
  nof_retxs :: nat
  ndi :: bool
  max_nof_harq_retxs :: nat
  ack_on_timeout :: bool
  retxs_cancelled :: bool
  tbs_bytes :: nat
  harq_bit_idx :: nat
  pucch_ack_to_receive :: nat
  chosen_ack :: mac_harq_ack_report_status
  last_pucch_snr :: "real option"

text \<open>
  Modelled from the spec: the declaration of the record (its default member values) is
  outside the sources at hand. A record that was never allocated is \<open>empty\<close>, with its
  counters zero and its flags false.
\<close>

definition default_harq :: harq_type where
  "default_harq =
     \<lparr>ue_idx = 0, h_id = 0, status = empty_harq, slot_tx = 0, slot_ack = 0,
      slot_ack_timeout = 0, nof_retxs = 0, ndi = False, max_nof_harq_retxs = 0,
      ack_on_timeout = False, retxs_cancelled = False, tbs_bytes = 0, harq_bit_idx = 0,
      pucch_ack_to_receive = 0, chosen_ack = dtx, last_pucch_snr = None\<rparr>"

text \<open>
  \<^verbatim>\<open>ue_harq_entity_impl\<close>: the per-terminal index from process id to the array index
  of the record, and the free process ids. Modelled from the spec: the sentinel
  \<^verbatim>\<open>INVALID_HARQ_REF_INDEX\<close> is declared outside the sources at hand; the index maps a
  process id to a record location or "none", here \<open>None\<close>.
\<close>

record ue_harq_entity_impl =
  ue_harqs :: "nat option list"
  free_harq_ids :: "nat list"

text \<open>
  Modelled from the spec: \<^verbatim>\<open>MAX_NOF_HARQS\<close> is declared outside the sources at hand;
  the spec bounds the process id by a configured maximum and gives 16.
\<close>

definition MAX_NOF_HARQS :: nat where
  "MAX_NOF_HARQS = 16"

definition RING_SIZE :: nat where
  "RING_SIZE = 40"

text \<open>
  \<^verbatim>\<open>cell_harq_repository<IsDl>\<close>. The template parameter is the field \<open>is_dl\<close>.
  Modelled from the spec: \<^verbatim>\<open>intrusive_double_linked_list\<close> is declared outside the
  sources at hand; a bucket of the timeout wheel and the pending-retransmission list are
  lists of array indices, \<^verbatim>\<open>push_front\<close> puts an index in front and
  \<^verbatim>\<open>pop(&h)\<close> takes the index of \<open>h\<close> out. The timeout notifier is an interface
  of the caller; the field \<open>timeouts_notified\<close> keeps the calls made to
  \<^verbatim>\<open>on_harq_timeout\<close>, oldest first, as (terminal, is downlink, assumed positive).
  The logger is not modelled.
\<close>

record cell_harq_repository =
  is_dl :: bool
  max_ack_wait_in_slots :: nat
  harqs :: "harq_type list"
  free_harqs :: "nat list"
  ues :: "ue_harq_entity_impl list"
  harq_timeout_wheel :: "nat list list"
  harq_pending_retx_list :: "nat list"
  timeouts_notified :: "(nat \<times> bool \<times> bool) list"

definition push_front :: "nat \<Rightarrow> nat list \<Rightarrow> nat list" where
  "push_front i l = i # l"

definition pop :: "nat \<Rightarrow> nat list \<Rightarrow> nat list" where
  "pop i l = remove1 i l"

section \<open>The per-direction repository\<close>

definition cell_harq_repository_ctor :: "bool \<Rightarrow> nat \<Rightarrow> nat \<Rightarrow> cell_harq_repository" where
  "cell_harq_repository_ctor isdl max_ues max_ack_wait_timeout =
     \<lparr>is_dl = isdl,
      max_ack_wait_in_slots = max_ack_wait_timeout,
      harqs = replicate (MAX_NOF_HARQS * max_ues) default_harq,
      free_harqs = rev [0 ..< MAX_NOF_HARQS * max_ues],
      ues = replicate max_ues \<lparr>ue_harqs = replicate MAX_NOF_HARQS None, free_harq_ids = []\<rparr>,
      harq_timeout_wheel = replicate RING_SIZE [],
      harq_pending_retx_list = [],
      timeouts_notified = []\<rparr>"

definition wheel_slot :: "cell_harq_repository \<Rightarrow> slot_point \<Rightarrow> nat" where
  "wheel_slot s sl = sl mod length (harq_timeout_wheel s)"

definition alloc_harq ::
  "nat \<Rightarrow> slot_point \<Rightarrow> slot_point \<Rightarrow> nat \<Rightarrow> cell_harq_repository
     \<Rightarrow> nat option \<times> cell_harq_repository" where
  "alloc_harq ue sl_tx sl_ack max_retxs s =
     (let ue_harq_entity = ues s ! ue in
      if free_harqs s = [] \<or> free_harq_ids ue_harq_entity = [] then (None, s)
      else
        let hid = last (free_harq_ids ue_harq_entity);
            harq_ref_idx = last (free_harqs s);
            ue_harq_entity' = ue_harq_entity
              \<lparr>free_harq_ids := butlast (free_harq_ids ue_harq_entity),
               ue_harqs := (ue_harqs ue_harq_entity)[hid := Some harq_ref_idx]\<rparr>;
            h = harqs s ! harq_ref_idx;
            tmo = sl_ack + max_ack_wait_in_slots s;
            h' = h\<lparr>ue_idx := ue, h_id := hid, status := waiting_ack, slot_tx := sl_tx,
                   slot_ack := sl_ack, nof_retxs := 0, ndi := \<not> ndi h,
                   max_nof_harq_retxs := max_retxs, ack_on_timeout := False,
                   retxs_cancelled := False, slot_ack_timeout := tmo\<rparr>;
            b = wheel_slot s tmo
        in (Some harq_ref_idx,
            s\<lparr>free_harqs := butlast (free_harqs s),
              ues := (ues s)[ue := ue_harq_entity'],
              harqs := (harqs s)[harq_ref_idx := h'],
              harq_timeout_wheel :=
                (harq_timeout_wheel s)[b := push_front harq_ref_idx (harq_timeout_wheel s ! b)]\<rparr>))"

definition dealloc_harq :: "nat \<Rightarrow> cell_harq_repository \<Rightarrow> cell_harq_repository" where
  "dealloc_harq i s =
     (let h = harqs s ! i in
      if status h = empty_harq then s
      else
        let ue_harq_entity = ues s ! ue_idx h;
            ue_harq_entity' = ue_harq_entity
              \<lparr>ue_harqs := (ue_harqs ue_harq_entity)[h_id h := None],
               free_harq_ids := free_harq_ids ue_harq_entity @ [h_id h]\<rparr>;
            b = wheel_slot s (slot_ack_timeout h)
        in s\<lparr>ues := (ues s)[ue_idx h := ue_harq_entity'],
             free_harqs := free_harqs s @ [i],
             harq_timeout_wheel :=
               (if status h = waiting_ack
                then (harq_timeout_wheel s)[b := pop i (harq_timeout_wheel s ! b)]
                else harq_timeout_wheel s),
             harq_pending_retx_list :=
               (if status h = waiting_ack then harq_pending_retx_list s
                else pop i (harq_pending_retx_list s)),
             harqs := (harqs s)[i := h\<lparr>status := empty_harq\<rparr>]\<rparr>)"

definition handle_harq_ack_timeout ::
  "nat \<Rightarrow> slot_point \<Rightarrow> cell_harq_repository \<Rightarrow> assertion + cell_harq_repository" where
  "handle_harq_ack_timeout i sl_tx s =
     (let h = harqs s ! i in
      if status h \<noteq> waiting_ack then Inl harq_in_wrong_state
      else
        let s' = (if max_ack_wait_in_slots s \<noteq> 1
                  then s\<lparr>timeouts_notified :=
                           timeouts_notified s @ [(ue_idx h, is_dl s, ack_on_timeout h)]\<rparr>
                  else s)
        in Inr (dealloc_harq i s'))"

text \<open>
  The loop of \<^verbatim>\<open>slot_indication\<close>,
  \<^verbatim>\<open>for (harq_type& h : harqs_timing_out) handle_harq_ack_timeout(h, sl_tx)\<close>,
  walks the intrusive list of the bucket itself and not a copy of it: it begins at the
  front node, hands the node it stands on to the timeout handler and then follows the
  successor link of that node. The handler ends in \<^verbatim>\<open>dealloc_harq\<close>, whose
  \<^verbatim>\<open>pop(&h)\<close> takes that very node out of the list. The list is declared outside
  the sources at hand; a node that \<^verbatim>\<open>pop\<close> has taken out is linked to no other
  node, so the walk finds no successor and ends there. Of the records queued in the bucket
  the call handles the one at the front; the records behind it stay queued and keep
  waiting.
\<close>

definition slot_indication ::
  "slot_point \<Rightarrow> cell_harq_repository \<Rightarrow> assertion + cell_harq_repository" where
  "slot_indication sl_tx s =
     (case harq_timeout_wheel s ! wheel_slot s sl_tx of
        [] \<Rightarrow> Inr s
      | i # queued_behind \<Rightarrow> handle_harq_ack_timeout i sl_tx s)"

definition set_pending_retx ::
  "nat \<Rightarrow> cell_harq_repository \<Rightarrow> assertion + cell_harq_repository" where
  "set_pending_retx i s =
     (let h = harqs s ! i in
      if status h = empty_harq then Inl harq_in_wrong_state
      else if status h = pending_retx then Inr s
      else
        let b = wheel_slot s (slot_ack_timeout h)
        in Inr (s\<lparr>harq_timeout_wheel :=
                     (harq_timeout_wheel s)[b := pop i (harq_timeout_wheel s ! b)],
                   harq_pending_retx_list := push_front i (harq_pending_retx_list s),
                   harqs := (harqs s)[i := h\<lparr>status := pending_retx\<rparr>]\<rparr>))"

definition handle_ack ::
  "nat \<Rightarrow> bool \<Rightarrow> cell_harq_repository \<Rightarrow> assertion + cell_harq_repository" where
  "handle_ack i a s =
     (let h = harqs s ! i in
      if a \<or> nof_retxs h \<ge> max_nof_harq_retxs h then Inr (dealloc_harq i s)
      else set_pending_retx i s)"

text \<open>
  \<^verbatim>\<open>free_harq_ids[count] = to_harq_id(nof_harqs - count - 1)\<close> for every
  \<open>count < nof_harqs\<close>.
\<close>

definition reserve_ue_harqs :: "nat \<Rightarrow> nat \<Rightarrow> cell_harq_repository \<Rightarrow> cell_harq_repository" where
  "reserve_ue_harqs ue nof_harqs s =
     s\<lparr>ues := (ues s)[ue := (ues s ! ue)\<lparr>free_harq_ids := rev [0 ..< nof_harqs]\<rparr>]\<rparr>"

text \<open>
  The loop of \<^verbatim>\<open>destroy_ue_harqs\<close> walks the terminal's index; position \<open>k\<close> is
  read when the loop reaches it, after the deallocations of the positions before it.
\<close>

fun destroy_loop :: "nat list \<Rightarrow> nat \<Rightarrow> cell_harq_repository \<Rightarrow> cell_harq_repository" where
  "destroy_loop [] ue s = s"
| "destroy_loop (k # ks) ue s =
     destroy_loop ks ue
       (case ue_harqs (ues s ! ue) ! k of
          None \<Rightarrow> s
        | Some h_idx \<Rightarrow> dealloc_harq h_idx s)"

definition destroy_ue_harqs :: "nat \<Rightarrow> cell_harq_repository \<Rightarrow> cell_harq_repository" where
  "destroy_ue_harqs ue s =
     (let s' = destroy_loop [0 ..< length (ue_harqs (ues s ! ue))] ue s
      in s'\<lparr>ues := (ues s')[ue := (ues s' ! ue)\<lparr>free_harq_ids := []\<rparr>]\<rparr>)"

definition cancel_retxs :: "nat \<Rightarrow> cell_harq_repository \<Rightarrow> cell_harq_repository" where
  "cancel_retxs i s =
     (let h = harqs s ! i in
      if status h = empty_harq then s
      else s\<lparr>harqs := (harqs s)[i := h\<lparr>max_nof_harq_retxs := nof_retxs h,
                                         retxs_cancelled := True\<rparr>]\<rparr>)"

fun find_in_state :: "nat option list \<Rightarrow> harq_type list \<Rightarrow> harq_state_t \<Rightarrow> nat option" where
  "find_in_state [] hs st = None"
| "find_in_state (None # rs) hs st = find_in_state rs hs st"
| "find_in_state (Some r # rs) hs st =
     (if status (hs ! r) = st then Some r else find_in_state rs hs st)"

definition find_ue_harq_in_state ::
  "nat \<Rightarrow> harq_state_t \<Rightarrow> cell_harq_repository \<Rightarrow> nat option" where
  "find_ue_harq_in_state ue st s = find_in_state (ue_harqs (ues s ! ue)) (harqs s) st"

section \<open>The cell HARQ manager\<close>

text \<open>
  \<^verbatim>\<open>cell_harq_manager\<close> owns the downlink and the uplink repository and the last slot
  indicated. The constant \<^verbatim>\<open>SHORT_ACK_TIMEOUT_DTX\<close> is declared outside the sources at
  hand and is a parameter of the model, the field \<open>short_ack_timeout_dtx\<close>.
\<close>

record cell_harq_manager =
  dl :: cell_harq_repository
  ul :: cell_harq_repository
  last_sl_tx :: slot_point
  short_ack_timeout_dtx :: nat

definition cell_harq_manager_ctor :: "nat \<Rightarrow> nat \<Rightarrow> nat \<Rightarrow> cell_harq_manager" where
  "cell_harq_manager_ctor max_ues max_ack_wait_timeout short_tmo =
     \<lparr>dl = cell_harq_repository_ctor True max_ues max_ack_wait_timeout,
      ul = cell_harq_repository_ctor False max_ues max_ack_wait_timeout,
      last_sl_tx = 0,
      short_ack_timeout_dtx = short_tmo\<rparr>"

definition mgr_slot_indication ::
  "slot_point \<Rightarrow> cell_harq_manager \<Rightarrow> assertion + cell_harq_manager" where
  "mgr_slot_indication sl_tx m =
     (case slot_indication sl_tx (dl m) of
        Inl a \<Rightarrow> Inl a
      | Inr d \<Rightarrow>
          (case slot_indication sl_tx (ul m) of
             Inl a \<Rightarrow> Inl a
           | Inr u \<Rightarrow> Inr (m\<lparr>last_sl_tx := sl_tx, dl := d, ul := u\<rparr>)))"

definition contains :: "nat \<Rightarrow> cell_harq_manager \<Rightarrow> bool" where
  "contains ue m = (length (free_harq_ids (ues (dl m) ! ue)) \<noteq> 0)"

definition add_ue :: "nat \<Rightarrow> nat \<Rightarrow> nat \<Rightarrow> cell_harq_manager \<Rightarrow> assertion + cell_harq_manager" where
  "add_ue ue nof_dl_harq_procs nof_ul_harq_procs m =
     (if \<not> nof_dl_harq_procs > 0 then Inl invalid_number_of_harqs
      else if \<not> nof_ul_harq_procs > 0 then Inl invalid_number_of_harqs
      else if contains ue m then Inl duplicate_ue_index
      else Inr (m\<lparr>dl := reserve_ue_harqs ue nof_dl_harq_procs (dl m),
                  ul := reserve_ue_harqs ue nof_ul_harq_procs (ul m)\<rparr>))"

definition destroy_ue :: "nat \<Rightarrow> cell_harq_manager \<Rightarrow> cell_harq_manager" where
  "destroy_ue ue m = m\<lparr>dl := destroy_ue_harqs ue (dl m), ul := destroy_ue_harqs ue (ul m)\<rparr>"

text \<open>
  \<^verbatim>\<open>new_dl_tx\<close> takes the bit index of the acknowledgment as a
  \<^verbatim>\<open>uint8_t\<close>: the index that the handle passes on as an \<^verbatim>\<open>unsigned\<close>
  is stored modulo 256.
\<close>

definition new_dl_tx ::
  "nat \<Rightarrow> slot_point \<Rightarrow> nat \<Rightarrow> nat \<Rightarrow> nat \<Rightarrow> cell_harq_manager \<Rightarrow> nat option \<times> cell_harq_manager" where
  "new_dl_tx ue pdsch_slot k1 max_harq_nof_retxs bit_idx m =
     (case alloc_harq ue pdsch_slot (pdsch_slot + k1) max_harq_nof_retxs (dl m) of
        (None, d) \<Rightarrow> (None, m)
      | (Some i, d) \<Rightarrow>
          (Some i,
           m\<lparr>dl := d\<lparr>harqs := (harqs d)[i := (harqs d ! i)
                \<lparr>tbs_bytes := 0, harq_bit_idx := bit_idx mod 256, pucch_ack_to_receive := 0,
                 chosen_ack := dtx, last_pucch_snr := None\<rparr>]\<rparr>\<rparr>))"

definition new_ul_tx ::
  "nat \<Rightarrow> slot_point \<Rightarrow> nat \<Rightarrow> cell_harq_manager \<Rightarrow> nat option \<times> cell_harq_manager" where
  "new_ul_tx ue pusch_slot max_harq_nof_retxs m =
     (case alloc_harq ue pusch_slot pusch_slot max_harq_nof_retxs (ul m) of
        (None, u) \<Rightarrow> (None, m)
      | (Some i, u) \<Rightarrow>
          (Some i, m\<lparr>ul := u\<lparr>harqs := (harqs u)[i := (harqs u ! i)\<lparr>tbs_bytes := 0\<rparr>]\<rparr>\<rparr>))"

text \<open>
  The codebook merge of \<^verbatim>\<open>dl_ack_info\<close>: whether the report is adopted as the chosen
  outcome.
\<close>

definition adopts :: "harq_type \<Rightarrow> mac_harq_ack_report_status \<Rightarrow> real option \<Rightarrow> bool" where
  "adopts h a pucch_snr =
     (a \<noteq> dtx \<and>
      (case last_pucch_snr h of
         None \<Rightarrow> True
       | Some last_snr \<Rightarrow>
           (case pucch_snr of None \<Rightarrow> False | Some snr \<Rightarrow> last_snr < snr)))"

definition dl_ack_info ::
  "nat \<Rightarrow> mac_harq_ack_report_status \<Rightarrow> real option \<Rightarrow> cell_harq_manager
     \<Rightarrow> assertion + (status_update \<times> cell_harq_manager)" where
  "dl_ack_info i a pucch_snr m =
     (let h0 = harqs (dl m) ! i in
      if status h0 \<noteq> waiting_ack then Inr (error, m)
      else
        let h1 = (if adopts h0 a pucch_snr
                  then h0\<lparr>chosen_ack := a, last_pucch_snr := pucch_snr\<rparr> else h0);
            d1 = (dl m)\<lparr>harqs := (harqs (dl m))[i := h1]\<rparr>
        in if pucch_ack_to_receive h1 \<le> 1
           then
             let final_ack = (chosen_ack h1 = ack)
             in (case handle_ack i final_ack d1 of
                   Inl e \<Rightarrow> Inl e
                 | Inr d2 \<Rightarrow> Inr (if final_ack then acked else nacked, m\<lparr>dl := d2\<rparr>))
           else
             let h2 = h1\<lparr>pucch_ack_to_receive := pucch_ack_to_receive h1 - 1,
                         ack_on_timeout := (chosen_ack h1 = ack)\<rparr>;
                 b_old = wheel_slot d1 (slot_ack_timeout h2);
                 w1 = (harq_timeout_wheel d1)[b_old := pop i (harq_timeout_wheel d1 ! b_old)];
                 h3 = h2\<lparr>slot_ack_timeout := last_sl_tx m + short_ack_timeout_dtx m\<rparr>;
                 b_new = wheel_slot d1 (slot_ack_timeout h3);
                 w2 = w1[b_new := push_front i (w1 ! b_new)]
             in Inr (no_update,
                     m\<lparr>dl := d1\<lparr>harqs := (harqs d1)[i := h3], harq_timeout_wheel := w2\<rparr>\<rparr>))"

text \<open>
  \<^verbatim>\<open>ul_crc_info\<close> returns \<open>-1\<close> for a record that is not waiting for its CRC, the
  bytes of the previous transmission when the CRC is positive and \<open>0\<close> otherwise.
  Modelled from the spec: the type of \<^verbatim>\<open>prev_tx_params.tbs_bytes\<close> is declared
  outside the sources at hand; the byte count is taken as an unsigned number of 32 bits,
  which the cast \<^verbatim>\<open>(int)\<close> reads as a two's complement number.
\<close>

definition int_cast :: "nat \<Rightarrow> int" where
  "int_cast n =
     (if n mod 2 ^ 32 < 2 ^ 31 then int (n mod 2 ^ 32) else int (n mod 2 ^ 32) - 2 ^ 32)"

definition ul_crc_info ::
  "nat \<Rightarrow> bool \<Rightarrow> cell_harq_manager \<Rightarrow> assertion + (int \<times> cell_harq_manager)" where
  "ul_crc_info i a m =
     (let h = harqs (ul m) ! i in
      if status h \<noteq> waiting_ack then Inr (- 1, m)
      else
        (case handle_ack i a (ul m) of
           Inl e \<Rightarrow> Inl e
         | Inr u \<Rightarrow> Inr (if a then int_cast (tbs_bytes (harqs u ! i)) else 0, m\<lparr>ul := u\<rparr>)))"

text \<open>
  The handle \<^verbatim>\<open>unique_ue_harq_entity\<close> is the terminal index bound to the manager; a
  process view is the array index of the record.
\<close>

definition alloc_dl_harq ::
  "nat \<Rightarrow> slot_point \<Rightarrow> nat \<Rightarrow> nat \<Rightarrow> nat \<Rightarrow> cell_harq_manager \<Rightarrow> nat option \<times> cell_harq_manager" where
  "alloc_dl_harq ue_index sl_tx k1 max_harq_nof_retxs bit_idx m =
     (case new_dl_tx ue_index sl_tx k1 max_harq_nof_retxs bit_idx m of
        (None, m') \<Rightarrow> (None, m')
      | (Some i, m') \<Rightarrow> (Some i, m'))"

definition alloc_ul_harq ::
  "nat \<Rightarrow> slot_point \<Rightarrow> nat \<Rightarrow> cell_harq_manager \<Rightarrow> nat option \<times> cell_harq_manager" where
  "alloc_ul_harq ue_index sl_tx max_harq_nof_retxs m =
     (case new_ul_tx ue_index sl_tx max_harq_nof_retxs m of
        (None, m') \<Rightarrow> (None, m')
      | (Some i, m') \<Rightarrow> (Some i, m'))"

section \<open>Sequences of operations\<close>

text \<open>
  The operations of a repository, as a caller can issue them: a record is named by its
  array index, a terminal by its index.
\<close>

datatype repo_op =
    Reserve nat nat
  | Alloc nat slot_point slot_point nat
  | HandleAck nat bool
  | Dealloc nat
  | Destroy nat
  | SlotInd slot_point
  | CancelRetxs nat

fun apply_op :: "repo_op \<Rightarrow> cell_harq_repository \<Rightarrow> assertion + cell_harq_repository" where
  "apply_op (Reserve ue n) s = Inr (reserve_ue_harqs ue n s)"
| "apply_op (Alloc ue sl_tx sl_ack max_retxs) s = Inr (snd (alloc_harq ue sl_tx sl_ack max_retxs s))"
| "apply_op (HandleAck i a) s = handle_ack i a s"
| "apply_op (Dealloc i) s = Inr (dealloc_harq i s)"
| "apply_op (Destroy ue) s = Inr (destroy_ue_harqs ue s)"
| "apply_op (SlotInd sl_tx) s = slot_indication sl_tx s"
| "apply_op (CancelRetxs i) s = Inr (cancel_retxs i s)"

text \<open>
  The arguments for which the source indexes its vectors in range: a terminal index below
  the number of terminals, a record index inside the pool, and at most
  \<^verbatim>\<open>MAX_NOF_HARQS\<close> process ids reserved.
\<close>

fun in_range :: "cell_harq_repository \<Rightarrow> repo_op \<Rightarrow> bool" where
  "in_range s (Reserve ue n) = (ue < length (ues s) \<and> n \<le> MAX_NOF_HARQS)"
| "in_range s (Alloc ue sl_tx sl_ack max_retxs) = (ue < length (ues s))"
| "in_range s (HandleAck i a) = (i < length (harqs s))"
| "in_range s (Dealloc i) = (i < length (harqs s))"
| "in_range s (Destroy ue) = (ue < length (ues s))"
| "in_range s (SlotInd sl_tx) = True"
| "in_range s (CancelRetxs i) = (i < length (harqs s))"

text \<open>
  Running a sequence of operations: \<open>None\<close> when an operation is not admitted by \<open>ok\<close>
  or trips an assertion, the final state otherwise.
\<close>

fun run_ops ::
  "(cell_harq_repository \<Rightarrow> repo_op \<Rightarrow> bool) \<Rightarrow> repo_op list \<Rightarrow> cell_harq_repository
     \<Rightarrow> cell_harq_repository option" where
  "run_ops ok [] s = Some s"
| "run_ops ok (x # xs) s =
     (if ok s x
      then (case apply_op x s of Inl a \<Rightarrow> None | Inr s' \<Rightarrow> run_ops ok xs s')
      else None)"

text \<open>
  Modelled from the spec: a downlink record carries the number of acknowledgment
  occasions still outstanding, and \<^verbatim>\<open>new_dl_tx\<close> starts it at zero; the operation
  that counts an occasion of a record is declared outside the sources at hand. It adds
  one to the count of the record and writes nothing else.
\<close>

definition increment_pucch_counter :: "nat \<Rightarrow> cell_harq_manager \<Rightarrow> cell_harq_manager" where
  "increment_pucch_counter i m =
     m\<lparr>dl := (dl m)\<lparr>harqs := (harqs (dl m))[i := (harqs (dl m) ! i)
            \<lparr>pucch_ack_to_receive := pucch_ack_to_receive (harqs (dl m) ! i) + 1\<rparr>]\<rparr>\<rparr>"

text \<open>
  The operations of the manager, of a terminal's handle and of a process view. The
  boolean of \<open>CancelHarqRetxs\<close> is the direction, downlink when true.
\<close>

datatype mgr_op =
    AddUe nat nat nat
  | DestroyUe nat
  | AllocDlHarq nat slot_point nat nat nat
  | AllocUlHarq nat slot_point nat
  | IncrementPucchCounter nat
  | DlAckInfo nat mac_harq_ack_report_status "real option"
  | UlCrcInfo nat bool
  | CancelHarqRetxs bool nat
  | SlotIndication slot_point

fun apply_mgr_op :: "mgr_op \<Rightarrow> cell_harq_manager \<Rightarrow> assertion + cell_harq_manager" where
  "apply_mgr_op (AddUe ue ndl nul) m = add_ue ue ndl nul m"
| "apply_mgr_op (DestroyUe ue) m = Inr (destroy_ue ue m)"
| "apply_mgr_op (AllocDlHarq ue sl_tx k1 max_retxs bidx) m =
     Inr (snd (alloc_dl_harq ue sl_tx k1 max_retxs bidx m))"
| "apply_mgr_op (AllocUlHarq ue sl_tx max_retxs) m = Inr (snd (alloc_ul_harq ue sl_tx max_retxs m))"
| "apply_mgr_op (IncrementPucchCounter i) m = Inr (increment_pucch_counter i m)"
| "apply_mgr_op (DlAckInfo i a snr) m =
     (case dl_ack_info i a snr m of Inl e \<Rightarrow> Inl e | Inr (r, m') \<Rightarrow> Inr m')"
| "apply_mgr_op (UlCrcInfo i a) m =
     (case ul_crc_info i a m of Inl e \<Rightarrow> Inl e | Inr (r, m') \<Rightarrow> Inr m')"
| "apply_mgr_op (CancelHarqRetxs d i) m =
     Inr (if d then m\<lparr>dl := cancel_retxs i (dl m)\<rparr> else m\<lparr>ul := cancel_retxs i (ul m)\<rparr>)"
| "apply_mgr_op (SlotIndication sl_tx) m = mgr_slot_indication sl_tx m"

fun mgr_in_range :: "cell_harq_manager \<Rightarrow> mgr_op \<Rightarrow> bool" where
  "mgr_in_range m (AddUe ue ndl nul) =
     (ue < length (ues (dl m)) \<and> ue < length (ues (ul m)) \<and>
      ndl \<le> MAX_NOF_HARQS \<and> nul \<le> MAX_NOF_HARQS)"
| "mgr_in_range m (DestroyUe ue) = (ue < length (ues (dl m)) \<and> ue < length (ues (ul m)))"
| "mgr_in_range m (AllocDlHarq ue sl_tx k1 max_retxs bidx) = (ue < length (ues (dl m)))"
| "mgr_in_range m (AllocUlHarq ue sl_tx max_retxs) = (ue < length (ues (ul m)))"
| "mgr_in_range m (IncrementPucchCounter i) = (i < length (harqs (dl m)))"
| "mgr_in_range m (DlAckInfo i a snr) = (i < length (harqs (dl m)))"
| "mgr_in_range m (UlCrcInfo i a) = (i < length (harqs (ul m)))"
| "mgr_in_range m (CancelHarqRetxs d i) = (i < length (harqs (if d then dl m else ul m)))"
| "mgr_in_range m (SlotIndication sl_tx) = True"

fun run_mgr :: "mgr_op list \<Rightarrow> cell_harq_manager \<Rightarrow> cell_harq_manager option" where
  "run_mgr [] m = Some m"
| "run_mgr (x # xs) m =
     (if mgr_in_range m x
      then (case apply_mgr_op x m of Inl a \<Rightarrow> None | Inr m' \<Rightarrow> run_mgr xs m')
      else None)"







section \<open>Well-formed repositories\<close>

text \<open>
  The free list holds exactly the empty records, once each.
\<close>

definition wf_free :: "cell_harq_repository \<Rightarrow> bool" where
  "wf_free s =
     (distinct (free_harqs s) \<and>
      (\<forall>i. i \<in> set (free_harqs s) \<longleftrightarrow>
           (i < length (harqs s) \<and> status (harqs s ! i) = empty_harq)))"

text \<open>
  Bucket \<open>b\<close> of the timeout wheel holds exactly the records that wait for an
  acknowledgment and whose deadline falls into \<open>b\<close>, once each.
\<close>

definition wf_wheel :: "cell_harq_repository \<Rightarrow> bool" where
  "wf_wheel s =
     (length (harq_timeout_wheel s) = RING_SIZE \<and>
      (\<forall>b < length (harq_timeout_wheel s).
         distinct (harq_timeout_wheel s ! b) \<and>
         (\<forall>i. i \<in> set (harq_timeout_wheel s ! b) \<longleftrightarrow>
              (i < length (harqs s) \<and> status (harqs s ! i) = waiting_ack \<and>
               wheel_slot s (slot_ack_timeout (harqs s ! i)) = b))))"

text \<open>
  The pending-retransmission list holds exactly the records with a retransmission
  pending, once each.
\<close>

definition wf_pending :: "cell_harq_repository \<Rightarrow> bool" where
  "wf_pending s =
     (distinct (harq_pending_retx_list s) \<and>
      (\<forall>i. i \<in> set (harq_pending_retx_list s) \<longleftrightarrow>
           (i < length (harqs s) \<and> status (harqs s ! i) = pending_retx)))"

text \<open>
  An entry of a terminal's index names a record of the pool that is in use, belongs to
  the terminal and carries the process id of the entry.
\<close>

definition wf_index :: "cell_harq_repository \<Rightarrow> bool" where
  "wf_index s =
     (\<forall>u < length (ues s). \<forall>k < length (ue_harqs (ues s ! u)). \<forall>i.
        ue_harqs (ues s ! u) ! k = Some i \<longrightarrow>
          (i < length (harqs s) \<and> status (harqs s ! i) \<noteq> empty_harq \<and>
           ue_idx (harqs s ! i) = u \<and> h_id (harqs s ! i) = k))"

definition repo_wf :: "cell_harq_repository \<Rightarrow> bool" where
  "repo_wf s = (wf_free s \<and> wf_wheel s \<and> wf_pending s \<and> wf_index s)"

text \<open>The record after the codebook merge of \<^verbatim>\<open>dl_ack_info\<close> looked at a report.\<close>

definition merged :: "harq_type \<Rightarrow> mac_harq_ack_report_status \<Rightarrow> real option \<Rightarrow> harq_type" where
  "merged h a snr = (if adopts h a snr then h\<lparr>chosen_ack := a, last_pucch_snr := snr\<rparr> else h)"

text \<open>
  Exclusive membership: a record that waits for an acknowledgment is in the timeout
  wheel once, in the bucket of its deadline, and not in the pending-retransmission list; a
  record with a retransmission pending is in that list once and not in the wheel; an empty
  record is in neither.
\<close>

definition exclusive_membership :: "cell_harq_repository \<Rightarrow> bool" where
  "exclusive_membership s =
     (\<forall>i < length (harqs s).
        count_list (concat (harq_timeout_wheel s)) i =
          (if status (harqs s ! i) = waiting_ack then 1 else 0) \<and>
        count_list (harq_pending_retx_list s) i =
          (if status (harqs s ! i) = pending_retx then 1 else 0) \<and>
        (status (harqs s ! i) = waiting_ack \<longrightarrow>
           i \<in> set (harq_timeout_wheel s ! wheel_slot s (slot_ack_timeout (harqs s ! i)))))"

text \<open>The retransmissions of every record in use are within its budget.\<close>

definition retx_within_budget :: "cell_harq_repository \<Rightarrow> bool" where
  "retx_within_budget s =
     (\<forall>i < length (harqs s). status (harqs s ! i) \<noteq> empty_harq \<longrightarrow>
        nof_retxs (harqs s ! i) \<le> max_nof_harq_retxs (harqs s ! i))"

text \<open>Both repositories of a manager are well formed and keep the retry budgets.\<close>

definition mgr_inv :: "cell_harq_manager \<Rightarrow> bool" where
  "mgr_inv m =
     (repo_wf (dl m) \<and> repo_wf (ul m) \<and> retx_within_budget (dl m) \<and> retx_within_budget (ul m))"

text \<open>
  A reachable repository: the state of a constructed repository after a sequence of its
  operations, or the downlink or uplink repository of a constructed manager after a
  sequence of the manager's operations.
\<close>

definition reachable :: "cell_harq_repository \<Rightarrow> bool" where
  "reachable s =
     ((\<exists>xs isdl max_ues w. run_ops in_range xs (cell_harq_repository_ctor isdl max_ues w) = Some s) \<or>
      (\<exists>ys max_ues w t m. run_mgr ys (cell_harq_manager_ctor max_ues w t) = Some m \<and>
          (s = dl m \<or> s = ul m)))"

text \<open>The repository of a direction of the manager, the downlink one when the flag is true.\<close>

definition repo_of :: "bool \<Rightarrow> cell_harq_manager \<Rightarrow> cell_harq_repository" where
  "repo_of d m = (if d then dl m else ul m)"

text \<open>
  Record \<open>r\<close> of terminal \<open>ue\<close> waits for its acknowledgment with deadline
  \<open>dline\<close>, and no positive result is assumed for it on timeout.
\<close>

definition waits_for :: "cell_harq_repository \<Rightarrow> nat \<Rightarrow> nat \<Rightarrow> slot_point \<Rightarrow> bool" where
  "waits_for q r ue dline =
     (r < length (harqs q) \<and> status (harqs q ! r) = waiting_ack \<and> ue_idx (harqs q ! r) = ue \<and>
      slot_ack_timeout (harqs q ! r) = dline \<and> \<not> ack_on_timeout (harqs q ! r))"

text \<open>
  The operations of the manager that leave record \<open>r\<close> of terminal \<open>ue\<close> in
  direction \<open>d\<close> waiting for its deadline \<open>dline\<close>: every operation but an
  acknowledgment report (downlink) or a CRC report (uplink) for \<open>r\<close>, the removal of
  \<open>ue\<close>, and a slot indication that visits the wheel bucket of \<open>dline\<close>. Counting
  an acknowledgment occasion of \<open>r\<close> and cancelling its retransmissions are among the
  operations allowed, as is everything done for other records and terminals.
\<close>

fun leaves_waiting :: "bool \<Rightarrow> nat \<Rightarrow> nat \<Rightarrow> slot_point \<Rightarrow> mgr_op \<Rightarrow> bool" where
  "leaves_waiting d r ue dline (DlAckInfo i a snr) = (\<not> d \<or> i \<noteq> r)"
| "leaves_waiting d r ue dline (UlCrcInfo i a) = (d \<or> i \<noteq> r)"
| "leaves_waiting d r ue dline (DestroyUe u) = (u \<noteq> ue)"
| "leaves_waiting d r ue dline (SlotIndication t) = (t mod RING_SIZE \<noteq> dline mod RING_SIZE)"
| "leaves_waiting d r ue dline x = True"

text \<open>
  What \<^verbatim>\<open>handle_harq_ack_timeout\<close> reports to the timeout notifier for record \<open>i\<close>.
\<close>

definition timeout_report :: "cell_harq_repository \<Rightarrow> nat \<Rightarrow> nat \<times> bool \<times> bool" where
  "timeout_report s i = (ue_idx (harqs s ! i), is_dl s, ack_on_timeout (harqs s ! i))"

text \<open>
  The new-data indicator of the process \<open>hid\<close> of terminal \<open>ue\<close>, when the process is
  allocated.
\<close>

definition ndi_of_process :: "cell_harq_repository \<Rightarrow> nat \<Rightarrow> nat \<Rightarrow> bool option" where
  "ndi_of_process s ue hid =
     (case ue_harqs (ues s ! ue) ! hid of None \<Rightarrow> None | Some r \<Rightarrow> Some (ndi (harqs s ! r)))"

text \<open>
  The number of records in use, and of those a terminal owns.
\<close>

definition nof_nonempty :: "cell_harq_repository \<Rightarrow> nat" where
  "nof_nonempty s = length (filter (\<lambda>h. status h \<noteq> empty_harq) (harqs s))"

definition nof_owned :: "cell_harq_repository \<Rightarrow> nat \<Rightarrow> nat" where
  "nof_owned s ue = length (filter (\<lambda>h. status h \<noteq> empty_harq \<and> ue_idx h = ue) (harqs s))"

text \<open>The records in use that a terminal owns.\<close>

definition owned_set :: "cell_harq_repository \<Rightarrow> nat \<Rightarrow> nat set" where
  "owned_set s ue = {i. i < length (harqs s) \<and> status (harqs s ! i) \<noteq> empty_harq \<and>
    ue_idx (harqs s ! i) = ue}"

text \<open>
  The process-id budget a terminal holds after a sequence of operations: what its last
  \<^verbatim>\<open>reserve_ue_harqs\<close> reserved, and nothing once \<^verbatim>\<open>destroy_ue_harqs\<close> removed it.
\<close>

fun budgets :: "(nat \<Rightarrow> nat) \<Rightarrow> repo_op list \<Rightarrow> (nat \<Rightarrow> nat)" where
  "budgets bud [] = bud"
| "budgets bud (Reserve ue n # xs) = budgets (bud(ue := n)) xs"
| "budgets bud (Destroy ue # xs) = budgets (bud(ue := 0)) xs"
| "budgets bud (x # xs) = budgets bud xs"

text \<open>
  A reservation is for a terminal that owns no record in use: the manager's
  \<^verbatim>\<open>add_ue\<close> is meant to reserve for a terminal that is not admitted.
\<close>

fun admitted :: "cell_harq_repository \<Rightarrow> repo_op \<Rightarrow> bool" where
  "admitted s (Reserve ue n) = (in_range s (Reserve ue n) \<and> nof_owned s ue = 0)"
| "admitted s x = in_range s x"

text \<open>
  The per-terminal bookkeeping against a budget \<open>bud\<close>: a record in use is the entry of
  its owner's index at its process id, which is below the owner's budget; the free
  process ids of a terminal are the ids below its budget without an entry, once each.
\<close>

definition wf_budget :: "cell_harq_repository \<Rightarrow> (nat \<Rightarrow> nat) \<Rightarrow> bool" where
  "wf_budget s bud =
     ((\<forall>i < length (harqs s). status (harqs s ! i) \<noteq> empty_harq \<longrightarrow>
         (ue_idx (harqs s ! i) < length (ues s) \<and>
          h_id (harqs s ! i) < bud (ue_idx (harqs s ! i)) \<and>
          ue_harqs (ues s ! ue_idx (harqs s ! i)) ! h_id (harqs s ! i) = Some i)) \<and>
      (\<forall>u < length (ues s).
         bud u \<le> MAX_NOF_HARQS \<and> length (ue_harqs (ues s ! u)) = MAX_NOF_HARQS \<and>
         distinct (free_harq_ids (ues s ! u)) \<and>
         (\<forall>k. k \<in> set (free_harq_ids (ues s ! u)) \<longleftrightarrow>
              (k < bud u \<and> ue_harqs (ues s ! u) ! k = None))))"

definition no_budget :: "nat \<Rightarrow> nat" where
  "no_budget ue = 0"

section \<open>Example states\<close>

definition mgr0 :: cell_harq_manager where
  "mgr0 = cell_harq_manager_ctor 1 8 8"

text \<open>One terminal admitted with one downlink and one uplink process.\<close>

definition mgr1 :: cell_harq_manager where
  "mgr1 = (case add_ue 0 1 1 mgr0 of Inr m \<Rightarrow> m | Inl a \<Rightarrow> mgr0)"

text \<open>Its only downlink process allocated at slot 100 with \<open>k1 = 4\<close>.\<close>

definition mgr2 :: cell_harq_manager where
  "mgr2 = snd (alloc_dl_harq 0 100 4 4 0 mgr1)"

text \<open>The process acknowledged, hence released.\<close>

definition mgr3 :: cell_harq_manager where
  "mgr3 = (case dl_ack_info 0 ack (Some 5) mgr2 of Inr (r, m) \<Rightarrow> m | Inl a \<Rightarrow> mgr2)"

text \<open>A repository for one terminal, and one for two.\<close>

definition repo1 :: cell_harq_repository where
  "repo1 = cell_harq_repository_ctor True 1 8"

definition repo2 :: cell_harq_repository where
  "repo2 = cell_harq_repository_ctor True 2 8"

text \<open>
  A terminal with a budget of one process id that is reserved a second time while its
  process is in use.
\<close>

definition double_reserve :: "repo_op list" where
  "double_reserve = [Reserve 0 1, Alloc 0 100 104 4, Reserve 0 1, Alloc 0 101 105 4]"

text \<open>
  A terminal with two process ids: allocate both, let one be acknowledged, cancel and
  release the other, and destroy the terminal.
\<close>

definition busy_trace :: "repo_op list" where
  "busy_trace =
     [Reserve 0 2, Alloc 0 100 104 4, Alloc 0 101 105 4, Alloc 0 102 106 4,
      HandleAck 0 False, SlotInd 113, CancelRetxs 0, HandleAck 0 False,
      Reserve 1 3, Alloc 1 120 124 1]"

text \<open>
  A manager run: a downlink process with two acknowledgment occasions whose first report
  arrives, a second downlink process that is negatively acknowledged, and an uplink
  process whose CRC fails.
\<close>

definition mgr_trace :: "mgr_op list" where
  "mgr_trace =
     [AddUe 0 2 2, AllocDlHarq 0 100 4 4 0, IncrementPucchCounter 0, IncrementPucchCounter 0,
      SlotIndication 101, DlAckInfo 0 ack (Some 5), AllocDlHarq 0 101 4 4 1,
      DlAckInfo 1 nack (Some 2), AllocUlHarq 0 105 4, UlCrcInfo 0 False]"

definition mgr4 :: cell_harq_manager where
  "mgr4 = the (run_mgr mgr_trace mgr0)"

text \<open>
  Two downlink processes of one terminal wait for their acknowledgment: record 0 with a
  budget of four retransmissions and two acknowledgment occasions, record 1 with no
  retransmission allowed. The last slot indicated is 102.
\<close>

definition two_waiting :: "mgr_op list" where
  "two_waiting =
     [AddUe 0 2 2, AllocDlHarq 0 100 4 4 0, AllocDlHarq 0 101 4 0 1,
      IncrementPucchCounter 0, IncrementPucchCounter 0, SlotIndication 102]"

definition mgr5 :: cell_harq_manager where
  "mgr5 = the (run_mgr two_waiting mgr0)"

text \<open>
  Two terminals with one process id each. The process of terminal 0 is allocated for the
  first time; then terminal 1 allocates, releases and allocates again, and both release;
  then the process of terminal 0 is allocated for the second time.
\<close>

definition ndi_first :: "repo_op list" where
  "ndi_first = [Reserve 0 1, Reserve 1 1, Alloc 0 10 14 4]"

definition ndi_between :: "repo_op list" where
  "ndi_between = [Alloc 1 10 14 4, Dealloc 1, Alloc 1 20 24 4, Dealloc 0, Dealloc 1]"

definition ndi_second :: "repo_op list" where
  "ndi_second = [Alloc 0 30 34 4]"

text \<open>
  The scenarios of the timeout. A manager for one terminal with a maximum wait of \<open>w\<close>
  slots, the terminal admitted with two downlink and two uplink processes.
\<close>

definition tmo_mgr :: "nat \<Rightarrow> cell_harq_manager" where
  "tmo_mgr w = the (run_mgr [AddUe 0 2 2] (cell_harq_manager_ctor 1 w 8))"

text \<open>
  A downlink process allocated at slot 100 with its acknowledgment expected \<open>k1\<close>
  slots later, and an uplink process allocated at slot 100.
\<close>

definition dl_allocated :: "nat \<Rightarrow> nat \<Rightarrow> cell_harq_manager" where
  "dl_allocated w k1 = snd (alloc_dl_harq 0 100 k1 4 0 (tmo_mgr w))"

definition ul_allocated :: "nat \<Rightarrow> cell_harq_manager" where
  "ul_allocated w = snd (alloc_ul_harq 0 100 4 (tmo_mgr w))"

text \<open>The slots from \<open>a\<close> up to the one before \<open>b\<close> indicated in turn.\<close>

definition slots :: "nat \<Rightarrow> nat \<Rightarrow> mgr_op list" where
  "slots a b = map SlotIndication [a ..< b]"

text \<open>
  What goes on while downlink record 0 waits for slot 112: the slots 101 to 111 are
  indicated; a second downlink process is allocated and acknowledged; an acknowledgment
  occasion of record 0 is counted and its retransmissions are cancelled; an uplink process
  is allocated, and its CRC never comes.
\<close>

definition busy_wait :: "mgr_op list" where
  "busy_wait =
     [SlotIndication 101, AllocDlHarq 0 101 4 4 1, IncrementPucchCounter 0,
      SlotIndication 102, CancelHarqRetxs True 0, DlAckInfo 1 ack (Some 3),
      AllocUlHarq 0 102 4] @ slots 103 112"

text \<open>
  The managers when the deadline slot is about to be indicated: after \<open>busy_wait\<close>
  with a maximum wait of 8 slots, after the slots 101 to 104 with a maximum wait of 1 slot,
  and the uplink process after the slots 101 to 107 with a maximum wait of 8 slots.
\<close>

definition dl_waited :: cell_harq_manager where
  "dl_waited = the (run_mgr busy_wait (dl_allocated 8 4))"

definition dl_waited_one :: cell_harq_manager where
  "dl_waited_one = the (run_mgr (slots 101 105) (dl_allocated 1 4))"

definition ul_waited :: cell_harq_manager where
  "ul_waited = the (run_mgr (slots 101 108) (ul_allocated 8))"

text \<open>
  A maximum wait of 30 slots and an acknowledgment expected 15 slots after the
  transmission at slot 100: the deadline is slot 145, and the slots 101 to 104 have been
  indicated.
\<close>

definition dl_waited_long :: cell_harq_manager where
  "dl_waited_long = the (run_mgr (slots 101 105) (dl_allocated 30 15))"

text \<open>
  Record 0 with two of its four retransmissions used and record 1 with all three of its
  retransmissions used: the downlink repository of \<open>mgr5\<close> with these counts. (The
  operation that starts a retransmission and counts it is declared outside the sources at
  hand.)
\<close>

definition retx_state :: cell_harq_repository where
  "retx_state =
     (dl mgr5)\<lparr>harqs := (harqs (dl mgr5))
        [0 := (harqs (dl mgr5) ! 0)\<lparr>nof_retxs := 2\<rparr>,
         1 := (harqs (dl mgr5) ! 1)\<lparr>nof_retxs := 3, max_nof_harq_retxs := 3\<rparr>]\<rparr>"

section \<open>Auxiliary lemmas\<close>

lemma wheel_slot_lt: "wf_wheel s \<Longrightarrow> wheel_slot s t < length (harq_timeout_wheel s)"
  by (simp add: wf_wheel_def wheel_slot_def RING_SIZE_def)

lemma nth_upd_None_Some:
  "k < length xs \<Longrightarrow> (xs[a := None]) ! k = Some j \<Longrightarrow> xs ! k = Some j \<and> a \<noteq> k"
  by (cases "a = k") auto

lemma nth_upd_if:
  "j < length xs \<Longrightarrow> (xs[i := v]) ! j = (if i = j then v else xs ! j)"
  by (cases "i = j") auto

lemma set_butlast_distinct:
  "distinct xs \<Longrightarrow> xs \<noteq> [] \<Longrightarrow> set (butlast xs) = set xs - {last xs}"
  by (induction xs rule: rev_induct) auto

lemma distinct_count_list:
  "distinct xs \<Longrightarrow> count_list xs a = (if a \<in> set xs then 1 else 0)"
  by (induction xs) auto

lemma count_list_le1_distinct:
  "(\<And>a. count_list xs a \<le> 1) \<Longrightarrow> distinct xs"
proof (induction xs)
  case Nil
  then show ?case by simp
next
  case (Cons x xs)
  have "count_list (x # xs) x \<le> 1" by (rule Cons.prems)
  then have nx: "x \<notin> set xs" by (simp add: count_list_0_iff)
  have "\<And>a. count_list xs a \<le> 1"
  proof -
    fix a
    have "count_list xs a \<le> count_list (x # xs) a" by simp
    also have "\<dots> \<le> 1" by (rule Cons.prems)
    finally show "count_list xs a \<le> 1" .
  qed
  then have "distinct xs" by (rule Cons.IH)
  with nx show ?case by simp
qed

lemma distinct_set_count:
  "(distinct xs \<and> (\<forall>i. i \<in> set xs \<longleftrightarrow> P i)) \<longleftrightarrow>
   (\<forall>i. count_list xs i = (if P i then 1 else 0))"
proof
  assume "distinct xs \<and> (\<forall>i. i \<in> set xs \<longleftrightarrow> P i)"
  then show "\<forall>i. count_list xs i = (if P i then 1 else 0)"
    by (simp add: distinct_count_list)
next
  assume a: "\<forall>i. count_list xs i = (if P i then 1 else 0)"
  then have m: "\<forall>i. i \<in> set xs \<longleftrightarrow> P i"
    by (metis count_list_0_iff zero_neq_one)
  from a have "distinct xs"
    by (intro count_list_le1_distinct) simp
  with m show "distinct xs \<and> (\<forall>i. i \<in> set xs \<longleftrightarrow> P i)" by simp
qed

lemma wf_free_count:
  "wf_free s \<longleftrightarrow>
   (\<forall>i. count_list (free_harqs s) i =
      (if i < length (harqs s) \<and> status (harqs s ! i) = empty_harq then 1 else 0))"
  unfolding wf_free_def by (rule distinct_set_count)

lemma wf_pending_count:
  "wf_pending s \<longleftrightarrow>
   (\<forall>i. count_list (harq_pending_retx_list s) i =
      (if i < length (harqs s) \<and> status (harqs s ! i) = pending_retx then 1 else 0))"
  unfolding wf_pending_def by (rule distinct_set_count)

lemma wf_wheel_count:
  "wf_wheel s \<longleftrightarrow>
   (length (harq_timeout_wheel s) = RING_SIZE \<and>
    (\<forall>b < length (harq_timeout_wheel s). \<forall>i. count_list (harq_timeout_wheel s ! b) i =
      (if i < length (harqs s) \<and> status (harqs s ! i) = waiting_ack \<and>
          wheel_slot s (slot_ack_timeout (harqs s ! i)) = b then 1 else 0)))"
  unfolding wf_wheel_def by (simp only: distinct_set_count)

subsection \<open>dealloc\<close>

lemma dealloc_length_harqs [simp]: "length (harqs (dealloc_harq i s)) = length (harqs s)"
  by (simp add: dealloc_harq_def Let_def)

lemma dealloc_length_ues [simp]: "length (ues (dealloc_harq i s)) = length (ues s)"
  by (simp add: dealloc_harq_def Let_def)

lemma dealloc_harqs_nth:
  "j < length (harqs s) \<Longrightarrow>
   harqs (dealloc_harq i s) ! j =
     (if j = i then (harqs s ! i)\<lparr>status := empty_harq\<rparr> else harqs s ! j)"
  by (cases "harqs s ! i") (auto simp: dealloc_harq_def Let_def nth_list_update)

lemma dealloc_ue_harqs:
  "u < length (ues s) \<Longrightarrow>
   ue_harqs (ues (dealloc_harq i s) ! u) =
     (if status (harqs s ! i) \<noteq> empty_harq \<and> u = ue_idx (harqs s ! i)
      then (ue_harqs (ues s ! u))[h_id (harqs s ! i) := None]
      else ue_harqs (ues s ! u))"
  by (simp add: dealloc_harq_def Let_def nth_list_update)

lemma dealloc_free_harq_ids:
  "u < length (ues s) \<Longrightarrow>
   free_harq_ids (ues (dealloc_harq i s) ! u) =
     (if status (harqs s ! i) \<noteq> empty_harq \<and> u = ue_idx (harqs s ! i)
      then free_harq_ids (ues s ! u) @ [h_id (harqs s ! i)]
      else free_harq_ids (ues s ! u))"
  by (simp add: dealloc_harq_def Let_def nth_list_update)

lemma dealloc_wf_free:
  assumes "wf_free s" "i < length (harqs s)"
  shows "wf_free (dealloc_harq i s)"
  using assms unfolding wf_free_def dealloc_harq_def Let_def
  by (auto simp: nth_list_update)

lemma dealloc_wf_wheel:
  assumes "wf_wheel s" "i < length (harqs s)"
  shows "wf_wheel (dealloc_harq i s)"
  using assms unfolding wf_wheel_def dealloc_harq_def Let_def pop_def wheel_slot_def
  by (auto simp: nth_list_update)

lemma dealloc_wf_pending:
  assumes "wf_pending s" "i < length (harqs s)"
  shows "wf_pending (dealloc_harq i s)"
  using assms unfolding wf_pending_def dealloc_harq_def Let_def pop_def
  by (auto simp: nth_list_update)

lemma dealloc_wf_index:
  assumes "wf_index s" "i < length (harqs s)"
  shows "wf_index (dealloc_harq i s)"
  unfolding wf_index_def
proof (intro allI impI)
  fix u k j
  assume u: "u < length (ues (dealloc_harq i s))"
    and k: "k < length (ue_harqs (ues (dealloc_harq i s) ! u))"
    and e: "ue_harqs (ues (dealloc_harq i s) ! u) ! k = Some j"
  from u have u': "u < length (ues s)" by simp
  from k u' have k': "k < length (ue_harqs (ues s ! u))"
    by (simp add: dealloc_ue_harqs split: if_splits)
  from e u' k' have old: "ue_harqs (ues s ! u) ! k = Some j"
    by (auto simp: dealloc_ue_harqs split: if_splits dest: nth_upd_None_Some)
  with assms(1) u' k' have j: "j < length (harqs s)" "status (harqs s ! j) \<noteq> empty_harq"
    "ue_idx (harqs s ! j) = u" "h_id (harqs s ! j) = k"
    unfolding wf_index_def by blast+
  have "j \<noteq> i \<or> status (harqs s ! i) = empty_harq"
    using e u' k' j by (auto simp: dealloc_ue_harqs split: if_splits dest: nth_upd_None_Some)
  then show "j < length (harqs (dealloc_harq i s)) \<and>
      status (harqs (dealloc_harq i s) ! j) \<noteq> empty_harq \<and>
      ue_idx (harqs (dealloc_harq i s) ! j) = u \<and> h_id (harqs (dealloc_harq i s) ! j) = k"
    using j by (auto simp: dealloc_harqs_nth)
qed

lemma dealloc_repo_wf:
  "repo_wf s \<Longrightarrow> i < length (harqs s) \<Longrightarrow> repo_wf (dealloc_harq i s)"
  by (simp add: repo_wf_def dealloc_wf_free dealloc_wf_wheel dealloc_wf_pending dealloc_wf_index)

subsection \<open>alloc\<close>

lemma alloc_length_harqs [simp]:
  "length (harqs (snd (alloc_harq ue t1 t2 mx s))) = length (harqs s)"
  by (simp add: alloc_harq_def Let_def)

lemma alloc_length_ues [simp]:
  "length (ues (snd (alloc_harq ue t1 t2 mx s))) = length (ues s)"
  by (simp add: alloc_harq_def Let_def)

lemma last_free_empty:
  "wf_free s \<Longrightarrow> free_harqs s \<noteq> [] \<Longrightarrow>
   last (free_harqs s) < length (harqs s) \<and> status (harqs s ! last (free_harqs s)) = empty_harq"
  unfolding wf_free_def using last_in_set by blast

lemma alloc_wf_free:
  assumes "wf_free s"
  shows "wf_free (snd (alloc_harq ue t1 t2 mx s))"
proof (cases "free_harqs s = [] \<or> free_harq_ids (ues s ! ue) = []")
  case True
  then show ?thesis using assms by (auto simp: alloc_harq_def)
next
  case False
  then have ne: "free_harqs s \<noteq> []" by simp
  note l = last_free_empty [OF assms ne]
  have d: "distinct (free_harqs s)" using assms by (simp add: wf_free_def)
  show ?thesis
    using False assms l
    unfolding wf_free_def alloc_harq_def Let_def
    by (auto simp: nth_list_update set_butlast_distinct [OF d ne] distinct_butlast)
qed

lemma alloc_wf_wheel:
  assumes "wf_wheel s" "wf_free s"
  shows "wf_wheel (snd (alloc_harq ue t1 t2 mx s))"
proof (cases "free_harqs s = [] \<or> free_harq_ids (ues s ! ue) = []")
  case True
  then show ?thesis using assms by (auto simp: alloc_harq_def)
next
  case False
  then have ne: "free_harqs s \<noteq> []" by simp
  note l = last_free_empty [OF assms(2) ne]
  show ?thesis
    using False assms(1) l wheel_slot_lt [OF assms(1)]
    unfolding wf_wheel_def alloc_harq_def Let_def push_front_def wheel_slot_def
    by (auto simp: nth_list_update)
qed

lemma alloc_wf_pending:
  assumes "wf_pending s" "wf_free s"
  shows "wf_pending (snd (alloc_harq ue t1 t2 mx s))"
proof (cases "free_harqs s = [] \<or> free_harq_ids (ues s ! ue) = []")
  case True
  then show ?thesis using assms by (auto simp: alloc_harq_def)
next
  case False
  then have ne: "free_harqs s \<noteq> []" by simp
  note l = last_free_empty [OF assms(2) ne]
  show ?thesis
    using False assms(1) l
    unfolding wf_pending_def alloc_harq_def Let_def
    by (auto simp: nth_list_update)
qed

lemma alloc_wf_index:
  assumes "wf_index s" "wf_free s" "ue < length (ues s)"
  shows "wf_index (snd (alloc_harq ue t1 t2 mx s))"
proof (cases "free_harqs s = [] \<or> free_harq_ids (ues s ! ue) = []")
  case True
  then show ?thesis using assms by (auto simp: alloc_harq_def)
next
  case False
  then have ne: "free_harqs s \<noteq> []" by simp
  define r where "r = last (free_harqs s)"
  define hid where "hid = last (free_harq_ids (ues s ! ue))"
  note l = last_free_empty [OF assms(2) ne, folded r_def]
  let ?s' = "snd (alloc_harq ue t1 t2 mx s)"
  have hq: "\<And>j. j < length (harqs s) \<Longrightarrow> j \<noteq> r \<Longrightarrow> harqs ?s' ! j = harqs s ! j"
    using False by (simp add: alloc_harq_def Let_def r_def)
  have hr: "status (harqs ?s' ! r) = waiting_ack" "ue_idx (harqs ?s' ! r) = ue"
    "h_id (harqs ?s' ! r) = hid"
    using False l by (simp_all add: alloc_harq_def Let_def r_def hid_def)
  have uh: "\<And>u. u < length (ues s) \<Longrightarrow> ue_harqs (ues ?s' ! u) =
      (if u = ue then (ue_harqs (ues s ! u))[hid := Some r] else ue_harqs (ues s ! u))"
    using False by (simp add: alloc_harq_def Let_def r_def hid_def nth_list_update)
  show ?thesis
    unfolding wf_index_def
  proof (intro allI impI)
    fix u k j
    assume u: "u < length (ues ?s')"
      and k: "k < length (ue_harqs (ues ?s' ! u))"
      and e: "ue_harqs (ues ?s' ! u) ! k = Some j"
    from u have u': "u < length (ues s)" by simp
    from k u' have k': "k < length (ue_harqs (ues s ! u))"
      by (simp add: uh split: if_splits)
    show "j < length (harqs ?s') \<and> status (harqs ?s' ! j) \<noteq> empty_harq \<and>
        ue_idx (harqs ?s' ! j) = u \<and> h_id (harqs ?s' ! j) = k"
    proof (cases "u = ue \<and> k = hid")
      case True
      with e u' k' have "j = r" by (simp add: uh)
      with True l hr show ?thesis by simp
    next
      case False
      with e u' k' have old: "ue_harqs (ues s ! u) ! k = Some j"
        by (auto simp: uh split: if_splits)
      with assms(1) u' k' have j: "j < length (harqs s)" "status (harqs s ! j) \<noteq> empty_harq"
        "ue_idx (harqs s ! j) = u" "h_id (harqs s ! j) = k"
        unfolding wf_index_def by blast+
      with l have "j \<noteq> r" by auto
      with j show ?thesis by (simp add: hq)
    qed
  qed
qed

lemma alloc_repo_wf:
  "repo_wf s \<Longrightarrow> ue < length (ues s) \<Longrightarrow> repo_wf (snd (alloc_harq ue t1 t2 mx s))"
  by (simp add: repo_wf_def alloc_wf_free alloc_wf_wheel alloc_wf_pending alloc_wf_index)

lemma repo_wf_cong:
  assumes "repo_wf s"
    and "free_harqs s' = free_harqs s"
    and "harq_timeout_wheel s' = harq_timeout_wheel s"
    and "harq_pending_retx_list s' = harq_pending_retx_list s"
    and "length (harqs s') = length (harqs s)"
    and "length (ues s') = length (ues s)"
    and "\<And>u. u < length (ues s) \<Longrightarrow> ue_harqs (ues s' ! u) = ue_harqs (ues s ! u)"
    and "\<And>i. i < length (harqs s) \<Longrightarrow>
           status (harqs s' ! i) = status (harqs s ! i) \<and>
           slot_ack_timeout (harqs s' ! i) = slot_ack_timeout (harqs s ! i) \<and>
           ue_idx (harqs s' ! i) = ue_idx (harqs s ! i) \<and>
           h_id (harqs s' ! i) = h_id (harqs s ! i)"
  shows "repo_wf s'"
proof -
  have a: "wf_free s'"
    using assms(1,2,5,8) unfolding repo_wf_def wf_free_count by auto
  have ws: "\<And>t. wheel_slot s' t = wheel_slot s t"
    using assms(3) by (simp add: wheel_slot_def)
  have b: "wf_wheel s'"
    using assms(1,3,5,8) unfolding repo_wf_def wf_wheel_count ws by auto
  have c: "wf_pending s'"
    using assms(1,4,5,8) unfolding repo_wf_def wf_pending_count by auto
  have d: "wf_index s'"
    unfolding wf_index_def
  proof (intro allI impI)
    fix u k i
    assume u: "u < length (ues s')" and k: "k < length (ue_harqs (ues s' ! u))"
      and e: "ue_harqs (ues s' ! u) ! k = Some i"
    from u have u': "u < length (ues s)" by (simp add: assms(6))
    from assms(1) u' k e assms(7) [OF u']
    have "i < length (harqs s) \<and> status (harqs s ! i) \<noteq> empty_harq \<and>
        ue_idx (harqs s ! i) = u \<and> h_id (harqs s ! i) = k"
      unfolding repo_wf_def wf_index_def by simp
    then show "i < length (harqs s') \<and> status (harqs s' ! i) \<noteq> empty_harq \<and>
        ue_idx (harqs s' ! i) = u \<and> h_id (harqs s' ! i) = k"
      using assms(5) assms(8) [of i] by simp
  qed
  from a b c d show ?thesis by (simp add: repo_wf_def)
qed

lemma ue_harqs_upd_free:
  "u < length us \<Longrightarrow> ue_harqs (us[ue := (us ! ue)\<lparr>free_harq_ids := f\<rparr>] ! u) = ue_harqs (us ! u)"
  by (cases "u = ue") auto

lemma reserve_wf:
  assumes "repo_wf s"
  shows "repo_wf (reserve_ue_harqs ue n s)"
  by (rule repo_wf_cong [OF assms]) (simp_all add: reserve_ue_harqs_def ue_harqs_upd_free)

lemma cancel_retxs_wf:
  assumes "repo_wf s"
  shows "repo_wf (cancel_retxs i s)"
  by (rule repo_wf_cong [OF assms]) (auto simp: cancel_retxs_def Let_def nth_upd_if)

subsection \<open>set_pending_retx, handle_ack\<close>

lemma set_pending_retx_cases:
  "set_pending_retx i s =
     (if status (harqs s ! i) = empty_harq then Inl harq_in_wrong_state
      else if status (harqs s ! i) = pending_retx then Inr s
      else Inr (s\<lparr>harq_timeout_wheel :=
                     (harq_timeout_wheel s)[wheel_slot s (slot_ack_timeout (harqs s ! i)) :=
                        remove1 i (harq_timeout_wheel s ! wheel_slot s (slot_ack_timeout (harqs s ! i)))],
                   harq_pending_retx_list := i # harq_pending_retx_list s,
                   harqs := (harqs s)[i := (harqs s ! i)\<lparr>status := pending_retx\<rparr>]\<rparr>))"
  by (simp add: set_pending_retx_def Let_def pop_def push_front_def)

lemma wheel_slot_upd [simp]:
  "wheel_slot (s\<lparr>harq_timeout_wheel := w\<rparr>) t = t mod length w"
  "wheel_slot (s\<lparr>harq_pending_retx_list := p\<rparr>) t = wheel_slot s t"
  "wheel_slot (s\<lparr>harqs := h\<rparr>) t = wheel_slot s t"
  "wheel_slot (s\<lparr>ues := u\<rparr>) t = wheel_slot s t"
  "wheel_slot (s\<lparr>free_harqs := f\<rparr>) t = wheel_slot s t"
  "wheel_slot (s\<lparr>timeouts_notified := n\<rparr>) t = wheel_slot s t"
  by (simp_all add: wheel_slot_def)

lemma set_pending_retx_wf:
  assumes "repo_wf s" "i < length (harqs s)" "set_pending_retx i s = Inr s'"
  shows "repo_wf s'"
proof (cases "status (harqs s ! i) = waiting_ack")
  case False
  with assms show ?thesis
    by (cases "status (harqs s ! i)") (auto simp: set_pending_retx_cases)
next
  case True
  define b0 where "b0 = wheel_slot s (slot_ack_timeout (harqs s ! i))"
  have s': "s' = s\<lparr>harq_timeout_wheel := (harq_timeout_wheel s)[b0 := remove1 i (harq_timeout_wheel s ! b0)],
                   harq_pending_retx_list := i # harq_pending_retx_list s,
                   harqs := (harqs s)[i := (harqs s ! i)\<lparr>status := pending_retx\<rparr>]\<rparr>"
    using assms(3) True by (simp add: set_pending_retx_cases b0_def)
  have w: "wf_wheel s" and f: "wf_free s" and p: "wf_pending s" and x: "wf_index s"
    using assms(1) by (simp_all add: repo_wf_def)
  have b0: "b0 < length (harq_timeout_wheel s)"
    unfolding b0_def by (rule wheel_slot_lt [OF w])
  have a: "wf_free s'"
    using f True assms(2) unfolding wf_free_count s'
    by (simp add: nth_upd_if)
  have b: "wf_wheel s'"
    using w True assms(2) b0 unfolding wf_wheel_count s'
    by (simp add: nth_upd_if b0_def wheel_slot_def)
  have c: "wf_pending s'"
    using p True assms(2) unfolding wf_pending_count s'
    by (auto simp: nth_upd_if)
  have d: "wf_index s'"
    using x True assms(2) unfolding wf_index_def s'
    by (simp add: nth_upd_if)
  from a b c d show ?thesis by (simp add: repo_wf_def)
qed

lemma handle_ack_wf:
  assumes "repo_wf s" "i < length (harqs s)" "handle_ack i a s = Inr s'"
  shows "repo_wf s'"
  using assms
  by (auto simp: handle_ack_def Let_def dealloc_repo_wf set_pending_retx_wf split: if_splits)

subsection \<open>destroy_ue_harqs\<close>

lemma dealloc_length_ue_harqs [simp]:
  "u < length (ues s) \<Longrightarrow>
   length (ue_harqs (ues (dealloc_harq i s) ! u)) = length (ue_harqs (ues s ! u))"
  by (simp add: dealloc_ue_harqs)

lemma destroy_loop_wf:
  "repo_wf s \<Longrightarrow> ue < length (ues s) \<Longrightarrow> \<forall>k\<in>set ks. k < length (ue_harqs (ues s ! ue)) \<Longrightarrow>
   repo_wf (destroy_loop ks ue s) \<and> length (ues (destroy_loop ks ue s)) = length (ues s) \<and>
   length (harqs (destroy_loop ks ue s)) = length (harqs s)"
proof (induction ks arbitrary: s)
  case Nil
  then show ?case by simp
next
  case (Cons k ks)
  show ?case
  proof (cases "ue_harqs (ues s ! ue) ! k")
    case None
    with Cons show ?thesis by simp
  next
    case (Some i)
    from Cons.prems have k: "k < length (ue_harqs (ues s ! ue))" by simp
    from Cons.prems(1) have "wf_index s" by (simp add: repo_wf_def)
    with Cons.prems(2) k Some have i: "i < length (harqs s)"
      unfolding wf_index_def by blast
    with Cons.prems have "repo_wf (dealloc_harq i s)" by (simp add: dealloc_repo_wf)
    with Cons.IH [of "dealloc_harq i s"] Cons.prems Some show ?thesis by simp
  qed
qed

lemma destroy_wf:
  assumes "repo_wf s" "ue < length (ues s)"
  shows "repo_wf (destroy_ue_harqs ue s)"
proof -
  let ?s' = "destroy_loop [0 ..< length (ue_harqs (ues s ! ue))] ue s"
  have w: "repo_wf ?s'" using destroy_loop_wf [OF assms] by simp
  have "repo_wf (?s'\<lparr>ues := (ues ?s')[ue := (ues ?s' ! ue)\<lparr>free_harq_ids := []\<rparr>]\<rparr>)"
    by (rule repo_wf_cong [OF w]) (simp_all add: ue_harqs_upd_free)
  then show ?thesis by (simp add: destroy_ue_harqs_def Let_def)
qed

subsection \<open>slot_indication\<close>

lemma timeout_handler_wf:
  assumes "repo_wf s" "i < length (harqs s)" "status (harqs s ! i) = waiting_ack"
  shows "\<exists>s'. handle_harq_ack_timeout i t s = Inr s' \<and> repo_wf s' \<and>
        length (harqs s') = length (harqs s) \<and> length (ues s') = length (ues s)"
proof -
  define s1 where "s1 = (if max_ack_wait_in_slots s \<noteq> 1
      then s\<lparr>timeouts_notified := timeouts_notified s @
               [(ue_idx (harqs s ! i), is_dl s, ack_on_timeout (harqs s ! i))]\<rparr> else s)"
  have w1: "repo_wf s1"
    unfolding s1_def using assms(1)
    by (auto intro: repo_wf_cong [OF assms(1)])
  have h1: "harqs s1 = harqs s" "ues s1 = ues s" by (simp_all add: s1_def)
  have st: "handle_harq_ack_timeout i t s = Inr (dealloc_harq i s1)"
    using assms(3) by (simp add: handle_harq_ack_timeout_def Let_def s1_def)
  have w2: "repo_wf (dealloc_harq i s1)" using w1 assms(2) h1 by (simp add: dealloc_repo_wf)
  with st h1 show ?thesis by simp
qed

lemma bucket_front:
  assumes "wf_wheel s" "harq_timeout_wheel s ! wheel_slot s t = i # xs"
  shows "i < length (harqs s)" and "status (harqs s ! i) = waiting_ack"
    and "wheel_slot s (slot_ack_timeout (harqs s ! i)) = wheel_slot s t"
proof -
  have b: "wheel_slot s t < length (harq_timeout_wheel s)" by (rule wheel_slot_lt [OF assms(1)])
  have "i \<in> set (harq_timeout_wheel s ! wheel_slot s t)" using assms(2) by simp
  with assms(1) b show "i < length (harqs s)" and "status (harqs s ! i) = waiting_ack"
    and "wheel_slot s (slot_ack_timeout (harqs s ! i)) = wheel_slot s t"
    unfolding wf_wheel_def by blast+
qed

lemma slot_indication_wf:
  assumes "repo_wf s"
  shows "\<exists>s'. slot_indication t s = Inr s' \<and> repo_wf s' \<and>
        length (harqs s') = length (harqs s) \<and> length (ues s') = length (ues s)"
proof (cases "harq_timeout_wheel s ! wheel_slot s t")
  case Nil
  with assms show ?thesis by (simp add: slot_indication_def)
next
  case (Cons i xs)
  have w: "wf_wheel s" using assms by (simp add: repo_wf_def)
  from timeout_handler_wf [OF assms bucket_front(1,2) [OF w Cons], of t] Cons
  show ?thesis by (simp add: slot_indication_def)
qed

subsection \<open>The constructed repository\<close>

lemma ctor_wf: "repo_wf (cell_harq_repository_ctor isdl n w)"
proof -
  let ?s = "cell_harq_repository_ctor isdl n w"
  have a: "wf_free ?s"
    by (auto simp: wf_free_def cell_harq_repository_ctor_def default_harq_def)
  have b: "wf_wheel ?s"
    by (auto simp: wf_wheel_def cell_harq_repository_ctor_def default_harq_def)
  have c: "wf_pending ?s"
    by (auto simp: wf_pending_def cell_harq_repository_ctor_def default_harq_def)
  have d: "wf_index ?s"
    by (auto simp: wf_index_def cell_harq_repository_ctor_def)
  from a b c d show ?thesis by (simp add: repo_wf_def)
qed

lemma ctor_lengths [simp]:
  "length (harqs (cell_harq_repository_ctor isdl n w)) = MAX_NOF_HARQS * n"
  "length (ues (cell_harq_repository_ctor isdl n w)) = n"
  by (simp_all add: cell_harq_repository_ctor_def)

lemma ctor_wf_budget: "wf_budget (cell_harq_repository_ctor isdl n w) (\<lambda>u. 0)"
  by (auto simp: wf_budget_def cell_harq_repository_ctor_def default_harq_def)

subsection \<open>Lengths\<close>

lemma set_pending_retx_lengths:
  "set_pending_retx i s = Inr s' \<Longrightarrow>
   length (harqs s') = length (harqs s) \<and> length (ues s') = length (ues s)"
  by (auto simp: set_pending_retx_cases split: if_splits)

lemma handle_ack_lengths:
  "handle_ack i a s = Inr s' \<Longrightarrow>
   length (harqs s') = length (harqs s) \<and> length (ues s') = length (ues s)"
  by (auto simp: handle_ack_def Let_def split: if_splits dest: set_pending_retx_lengths)

lemma reserve_lengths [simp]:
  "length (harqs (reserve_ue_harqs ue n s)) = length (harqs s)"
  "length (ues (reserve_ue_harqs ue n s)) = length (ues s)"
  by (simp_all add: reserve_ue_harqs_def)

lemma cancel_lengths [simp]:
  "length (harqs (cancel_retxs i s)) = length (harqs s)"
  "length (ues (cancel_retxs i s)) = length (ues s)"
  by (simp_all add: cancel_retxs_def Let_def)

lemma destroy_lengths:
  "repo_wf s \<Longrightarrow> ue < length (ues s) \<Longrightarrow>
   length (harqs (destroy_ue_harqs ue s)) = length (harqs s) \<and>
   length (ues (destroy_ue_harqs ue s)) = length (ues s)"
  using destroy_loop_wf [of s ue "[0 ..< length (ue_harqs (ues s ! ue))]"]
  by (simp add: destroy_ue_harqs_def Let_def)

lemma apply_op_wf:
  assumes "repo_wf s" "in_range s x"
  shows "(\<forall>s'. apply_op x s = Inr s' \<longrightarrow>
           repo_wf s' \<and> length (harqs s') = length (harqs s) \<and> length (ues s') = length (ues s))
         \<and> (\<forall>t. x = SlotInd t \<longrightarrow> (\<exists>s'. apply_op x s = Inr s'))"
proof (cases x)
  case (Reserve ue n)
  with assms show ?thesis by (auto simp: reserve_wf)
next
  case (Alloc ue t1 t2 mx)
  with assms show ?thesis by (auto simp: alloc_repo_wf)
next
  case (HandleAck i a)
  with assms show ?thesis by (auto simp: handle_ack_wf dest: handle_ack_lengths)
next
  case (Dealloc i)
  with assms show ?thesis by (auto simp: dealloc_repo_wf)
next
  case (Destroy ue)
  with assms show ?thesis by (auto simp: destroy_wf destroy_lengths)
next
  case (SlotInd t)
  with assms slot_indication_wf [OF assms(1), of t] show ?thesis by auto
next
  case (CancelRetxs i)
  with assms show ?thesis by (auto simp: cancel_retxs_wf)
qed

lemma run_ops_wf:
  "repo_wf s \<Longrightarrow> (\<And>r x. ok r x \<Longrightarrow> in_range r x) \<Longrightarrow> run_ops ok xs s = Some s' \<Longrightarrow>
   repo_wf s' \<and> length (harqs s') = length (harqs s) \<and> length (ues s') = length (ues s)"
proof (induction xs arbitrary: s)
  case Nil
  then show ?case by simp
next
  case (Cons x xs)
  from Cons.prems(3) have ok: "ok s x" by (simp split: if_splits)
  then have ir: "in_range s x" by (rule Cons.prems(2))
  from Cons.prems(3) ok obtain s1 where s1: "apply_op x s = Inr s1" "run_ops ok xs s1 = Some s'"
    by (auto split: sum.splits)
  from apply_op_wf [OF Cons.prems(1) ir] s1(1)
  have w1: "repo_wf s1" "length (harqs s1) = length (harqs s)" "length (ues s1) = length (ues s)"
    by simp_all
  from Cons.IH [OF w1(1) Cons.prems(2) s1(2)] w1 show ?case by simp
qed

subsection \<open>Conservation\<close>

lemma wf_free_conservation:
  assumes "wf_free s"
  shows "length (free_harqs s) + nof_nonempty s = length (harqs s)"
proof -
  have "length (free_harqs s) = card (set (free_harqs s))"
    using assms by (simp add: wf_free_def distinct_card)
  also have "set (free_harqs s) = {i. i < length (harqs s) \<and> status (harqs s ! i) = empty_harq}"
    using assms by (auto simp: wf_free_def)
  also have "card \<dots> = length (filter (\<lambda>h. status h = empty_harq) (harqs s))"
    by (simp add: length_filter_conv_card)
  finally have "length (free_harqs s) = length (filter (\<lambda>h. status h = empty_harq) (harqs s))" .
  moreover have "length (filter (\<lambda>h. status h = empty_harq) (harqs s)) +
      length (filter (\<lambda>h. \<not> status h = empty_harq) (harqs s)) = length (harqs s)"
    by (rule sum_length_filter_compl)
  ultimately show ?thesis by (simp add: nof_nonempty_def)
qed

subsection \<open>Budget bookkeeping\<close>

lemma wf_budgetI:
  assumes "\<And>i. i < length (harqs s) \<Longrightarrow> status (harqs s ! i) \<noteq> empty_harq \<Longrightarrow>
         ue_idx (harqs s ! i) < length (ues s) \<and>
          h_id (harqs s ! i) < bud (ue_idx (harqs s ! i)) \<and>
          ue_harqs (ues s ! ue_idx (harqs s ! i)) ! h_id (harqs s ! i) = Some i"
    and "\<And>u. u < length (ues s) \<Longrightarrow>
         bud u \<le> MAX_NOF_HARQS \<and> length (ue_harqs (ues s ! u)) = MAX_NOF_HARQS \<and>
         (\<forall>k. count_list (free_harq_ids (ues s ! u)) k =
              (if k < bud u \<and> ue_harqs (ues s ! u) ! k = None then 1 else 0))"
  shows "wf_budget s bud"
  unfolding wf_budget_def
proof (intro conjI allI impI)
  fix u assume u: "u < length (ues s)"
  from assms(2) [OF u] show "bud u \<le> MAX_NOF_HARQS" "length (ue_harqs (ues s ! u)) = MAX_NOF_HARQS"
    by simp_all
  from assms(2) [OF u]
  have "distinct (free_harq_ids (ues s ! u)) \<and>
      (\<forall>k. k \<in> set (free_harq_ids (ues s ! u)) \<longleftrightarrow> (k < bud u \<and> ue_harqs (ues s ! u) ! k = None))"
    using distinct_set_count [of "free_harq_ids (ues s ! u)"
        "\<lambda>k. k < bud u \<and> ue_harqs (ues s ! u) ! k = None"] by blast
  then show "distinct (free_harq_ids (ues s ! u))"
    and "\<And>k. k \<in> set (free_harq_ids (ues s ! u)) \<longleftrightarrow> (k < bud u \<and> ue_harqs (ues s ! u) ! k = None)"
    by simp_all
qed (use assms(1) in \<open>simp_all\<close>)

lemma wf_budgetD1:
  "wf_budget s bud \<Longrightarrow> i < length (harqs s) \<Longrightarrow> status (harqs s ! i) \<noteq> empty_harq \<Longrightarrow>
   ue_idx (harqs s ! i) < length (ues s) \<and>
   h_id (harqs s ! i) < bud (ue_idx (harqs s ! i)) \<and>
   ue_harqs (ues s ! ue_idx (harqs s ! i)) ! h_id (harqs s ! i) = Some i"
  by (simp add: wf_budget_def)

lemma wf_budgetD2:
  "wf_budget s bud \<Longrightarrow> u < length (ues s) \<Longrightarrow>
   bud u \<le> MAX_NOF_HARQS \<and> length (ue_harqs (ues s ! u)) = MAX_NOF_HARQS \<and>
   (\<forall>k. count_list (free_harq_ids (ues s ! u)) k =
        (if k < bud u \<and> ue_harqs (ues s ! u) ! k = None then 1 else 0))"
proof -
  assume w: "wf_budget s bud" and u: "u < length (ues s)"
  from w u have "distinct (free_harq_ids (ues s ! u)) \<and>
      (\<forall>k. k \<in> set (free_harq_ids (ues s ! u)) \<longleftrightarrow> (k < bud u \<and> ue_harqs (ues s ! u) ! k = None))"
    unfolding wf_budget_def by blast
  then have "\<forall>k. count_list (free_harq_ids (ues s ! u)) k =
        (if k < bud u \<and> ue_harqs (ues s ! u) ! k = None then 1 else 0)"
    using distinct_set_count [of "free_harq_ids (ues s ! u)"
        "\<lambda>k. k < bud u \<and> ue_harqs (ues s ! u) ! k = None"] by blast
  with w u show ?thesis unfolding wf_budget_def by blast
qed

lemma dealloc_wf_budget:
  assumes "wf_budget s bud" "i < length (harqs s)"
  shows "wf_budget (dealloc_harq i s) bud"
proof (cases "status (harqs s ! i) = empty_harq")
  case True
  then show ?thesis using assms by (simp add: dealloc_harq_def)
next
  case False
  note di = wf_budgetD1 [OF assms False]
  show ?thesis
  proof (rule wf_budgetI)
    fix j
    assume j: "j < length (harqs (dealloc_harq i s))"
      and st: "status (harqs (dealloc_harq i s) ! j) \<noteq> empty_harq"
    from j have j': "j < length (harqs s)" by simp
    from st j' have ji: "j \<noteq> i" and stj: "status (harqs s ! j) \<noteq> empty_harq"
      by (auto simp: dealloc_harqs_nth split: if_splits)
    note dj = wf_budgetD1 [OF assms(1) j' stj]
    have "ue_idx (harqs s ! j) = ue_idx (harqs s ! i) \<Longrightarrow> h_id (harqs s ! j) \<noteq> h_id (harqs s ! i)"
      using di dj ji by auto
    then show "ue_idx (harqs (dealloc_harq i s) ! j) < length (ues (dealloc_harq i s)) \<and>
        h_id (harqs (dealloc_harq i s) ! j) < bud (ue_idx (harqs (dealloc_harq i s) ! j)) \<and>
        ue_harqs (ues (dealloc_harq i s) ! ue_idx (harqs (dealloc_harq i s) ! j)) !
          h_id (harqs (dealloc_harq i s) ! j) = Some j"
      using dj ji j' by (auto simp: dealloc_harqs_nth dealloc_ue_harqs)
  next
    fix u
    assume "u < length (ues (dealloc_harq i s))"
    then have u: "u < length (ues s)" by simp
    note d2 = wf_budgetD2 [OF assms(1) u]
    show "bud u \<le> MAX_NOF_HARQS \<and>
        length (ue_harqs (ues (dealloc_harq i s) ! u)) = MAX_NOF_HARQS \<and>
        (\<forall>k. count_list (free_harq_ids (ues (dealloc_harq i s) ! u)) k =
             (if k < bud u \<and> ue_harqs (ues (dealloc_harq i s) ! u) ! k = None then 1 else 0))"
    proof (cases "u = ue_idx (harqs s ! i)")
      case False
      with d2 u show ?thesis by (simp add: dealloc_ue_harqs dealloc_free_harq_ids)
    next
      case True
      with d2 u di \<open>status (harqs s ! i) \<noteq> empty_harq\<close> show ?thesis
        by (auto simp: dealloc_ue_harqs dealloc_free_harq_ids nth_upd_if)
    qed
  qed
qed

lemma count_list_butlast:
  "xs \<noteq> [] \<Longrightarrow> count_list (butlast xs) k = count_list xs k - (if k = last xs then 1 else 0)"
  by (induction xs rule: rev_induct) auto

lemma alloc_harq_fail:
  "free_harqs s = [] \<or> free_harq_ids (ues s ! ue) = [] \<Longrightarrow> alloc_harq ue t1 t2 mx s = (None, s)"
  by (simp add: alloc_harq_def)

lemma alloc_harq_harqs:
  "free_harqs s \<noteq> [] \<Longrightarrow> free_harq_ids (ues s ! ue) \<noteq> [] \<Longrightarrow>
   harqs (snd (alloc_harq ue t1 t2 mx s)) =
     (harqs s)[last (free_harqs s) := (harqs s ! last (free_harqs s))
        \<lparr>ue_idx := ue, h_id := last (free_harq_ids (ues s ! ue)), status := waiting_ack,
         slot_tx := t1, slot_ack := t2, nof_retxs := 0,
         ndi := \<not> ndi (harqs s ! last (free_harqs s)),
         max_nof_harq_retxs := mx, ack_on_timeout := False, retxs_cancelled := False,
         slot_ack_timeout := t2 + max_ack_wait_in_slots s\<rparr>]"
  by (simp add: alloc_harq_def Let_def)

lemma alloc_harq_ues:
  "free_harqs s \<noteq> [] \<Longrightarrow> free_harq_ids (ues s ! ue) \<noteq> [] \<Longrightarrow>
   ues (snd (alloc_harq ue t1 t2 mx s)) =
     (ues s)[ue := (ues s ! ue)
        \<lparr>free_harq_ids := butlast (free_harq_ids (ues s ! ue)),
         ue_harqs := (ue_harqs (ues s ! ue))[last (free_harq_ids (ues s ! ue)) :=
                       Some (last (free_harqs s))]\<rparr>]"
  by (simp add: alloc_harq_def Let_def)

lemma alloc_wf_budget:
  assumes "wf_budget s bud" "repo_wf s" "ue < length (ues s)"
  shows "wf_budget (snd (alloc_harq ue t1 t2 mx s)) bud"
proof (cases "free_harqs s = [] \<or> free_harq_ids (ues s ! ue) = []")
  case True
  then show ?thesis using assms by (simp add: alloc_harq_fail)
next
  case False
  then have ne: "free_harqs s \<noteq> []" and ni: "free_harq_ids (ues s ! ue) \<noteq> []" by simp_all
  define r where "r = last (free_harqs s)"
  define hid where "hid = last (free_harq_ids (ues s ! ue))"
  let ?s' = "snd (alloc_harq ue t1 t2 mx s)"
  have f: "wf_free s" using assms(2) by (simp add: repo_wf_def)
  note l = last_free_empty [OF f ne, folded r_def]
  note d2 = wf_budgetD2 [OF assms(1,3)]
  have "count_list (free_harq_ids (ues s ! ue)) hid \<noteq> 0"
    using ni by (simp add: count_list_0_iff hid_def)
  with d2 have hid: "hid < bud ue" "ue_harqs (ues s ! ue) ! hid = None"
    by (auto split: if_splits)
  with d2 have hidl: "hid < length (ue_harqs (ues s ! ue))" by simp
  note H = alloc_harq_harqs [OF ne ni, of t1 t2 mx, folded r_def hid_def]
  note U = alloc_harq_ues [OF ne ni, of t1 t2 mx, folded r_def hid_def]
  show ?thesis
  proof (rule wf_budgetI)
    fix j
    assume j: "j < length (harqs ?s')" and st: "status (harqs ?s' ! j) \<noteq> empty_harq"
    from j have j': "j < length (harqs s)" by simp
    show "ue_idx (harqs ?s' ! j) < length (ues ?s') \<and>
        h_id (harqs ?s' ! j) < bud (ue_idx (harqs ?s' ! j)) \<and>
        ue_harqs (ues ?s' ! ue_idx (harqs ?s' ! j)) ! h_id (harqs ?s' ! j) = Some j"
    proof (cases "j = r")
      case True
      then show ?thesis using l hid hidl assms(3) by (simp add: H U)
    next
      case False
      with st j' have stj: "status (harqs s ! j) \<noteq> empty_harq" by (simp add: H nth_upd_if)
      note dj = wf_budgetD1 [OF assms(1) j' stj]
      have "\<not> (ue_idx (harqs s ! j) = ue \<and> h_id (harqs s ! j) = hid)"
        using dj hid by auto
      with dj False j' show ?thesis by (auto simp: H U nth_upd_if)
    qed
  next
    fix u
    assume "u < length (ues ?s')"
    then have u: "u < length (ues s)" by simp
    note du = wf_budgetD2 [OF assms(1) u]
    show "bud u \<le> MAX_NOF_HARQS \<and> length (ue_harqs (ues ?s' ! u)) = MAX_NOF_HARQS \<and>
        (\<forall>k. count_list (free_harq_ids (ues ?s' ! u)) k =
             (if k < bud u \<and> ue_harqs (ues ?s' ! u) ! k = None then 1 else 0))"
    proof (cases "u = ue")
      case False
      with du u show ?thesis by (simp add: U)
    next
      case True
      with du u hid hidl ni show ?thesis
        by (auto simp: U count_list_butlast nth_upd_if hid_def)
    qed
  qed
qed

lemma set_pending_retx_wf_budget:
  assumes "wf_budget s bud" "i < length (harqs s)" "set_pending_retx i s = Inr s'"
  shows "wf_budget s' bud"
proof (cases "status (harqs s ! i) = waiting_ack")
  case False
  with assms show ?thesis
    by (cases "status (harqs s ! i)") (auto simp: set_pending_retx_cases)
next
  case True
  then have s': "s' = s\<lparr>harq_timeout_wheel :=
                     (harq_timeout_wheel s)[wheel_slot s (slot_ack_timeout (harqs s ! i)) :=
                        remove1 i (harq_timeout_wheel s ! wheel_slot s (slot_ack_timeout (harqs s ! i)))],
                   harq_pending_retx_list := i # harq_pending_retx_list s,
                   harqs := (harqs s)[i := (harqs s ! i)\<lparr>status := pending_retx\<rparr>]\<rparr>"
    using assms(3) by (simp add: set_pending_retx_cases)
  show ?thesis
    using assms(1,2) True unfolding wf_budget_def s'
    by (auto simp: nth_upd_if)
qed

lemma handle_ack_wf_budget:
  assumes "wf_budget s bud" "i < length (harqs s)" "handle_ack i a s = Inr s'"
  shows "wf_budget s' bud"
  using assms
  by (auto simp: handle_ack_def Let_def dealloc_wf_budget set_pending_retx_wf_budget
      split: if_splits)

lemma cancel_retxs_wf_budget:
  assumes "wf_budget s bud"
  shows "wf_budget (cancel_retxs i s) bud"
  using assms unfolding wf_budget_def cancel_retxs_def Let_def
  by (auto simp: nth_upd_if)

lemma nof_owned_0:
  "nof_owned s ue = 0 \<longleftrightarrow>
   (\<forall>i < length (harqs s). status (harqs s ! i) \<noteq> empty_harq \<longrightarrow> ue_idx (harqs s ! i) \<noteq> ue)"
  unfolding nof_owned_def
  by (simp add: filter_empty_conv all_set_conv_all_nth) blast

lemma reserve_wf_budget:
  assumes "wf_budget s bud" "repo_wf s" "ue < length (ues s)" "n \<le> MAX_NOF_HARQS"
    "nof_owned s ue = 0"
  shows "wf_budget (reserve_ue_harqs ue n s) (bud(ue := n))"
proof (rule wf_budgetI)
  fix i
  assume "i < length (harqs (reserve_ue_harqs ue n s))"
    and "status (harqs (reserve_ue_harqs ue n s) ! i) \<noteq> empty_harq"
  then have i: "i < length (harqs s)" and st: "status (harqs s ! i) \<noteq> empty_harq"
    by (simp_all add: reserve_ue_harqs_def)
  from assms(5) i st have "ue_idx (harqs s ! i) \<noteq> ue" by (simp add: nof_owned_0)
  with wf_budgetD1 [OF assms(1) i st]
  show "ue_idx (harqs (reserve_ue_harqs ue n s) ! i) < length (ues (reserve_ue_harqs ue n s)) \<and>
      h_id (harqs (reserve_ue_harqs ue n s) ! i)
        < (bud(ue := n)) (ue_idx (harqs (reserve_ue_harqs ue n s) ! i)) \<and>
      ue_harqs (ues (reserve_ue_harqs ue n s) ! ue_idx (harqs (reserve_ue_harqs ue n s) ! i)) !
        h_id (harqs (reserve_ue_harqs ue n s) ! i) = Some i"
    by (simp add: reserve_ue_harqs_def)
next
  fix u
  assume "u < length (ues (reserve_ue_harqs ue n s))"
  then have u: "u < length (ues s)" by simp
  note du = wf_budgetD2 [OF assms(1) u]
  show "(bud(ue := n)) u \<le> MAX_NOF_HARQS \<and>
      length (ue_harqs (ues (reserve_ue_harqs ue n s) ! u)) = MAX_NOF_HARQS \<and>
      (\<forall>k. count_list (free_harq_ids (ues (reserve_ue_harqs ue n s) ! u)) k =
           (if k < (bud(ue := n)) u \<and> ue_harqs (ues (reserve_ue_harqs ue n s) ! u) ! k = None
            then 1 else 0))"
  proof (cases "u = ue")
    case False
    with du u show ?thesis by (simp add: reserve_ue_harqs_def)
  next
    case True
    have x: "wf_index s" using assms(2) by (simp add: repo_wf_def)
    have none: "ue_harqs (ues s ! ue) ! k = None" if "k < n" for k
    proof (cases "ue_harqs (ues s ! ue) ! k")
      case None
      then show ?thesis .
    next
      case (Some i)
      from that assms(4) du True have "k < length (ue_harqs (ues s ! ue))" by simp
      with x assms(3) Some have "i < length (harqs s)" "status (harqs s ! i) \<noteq> empty_harq"
        "ue_idx (harqs s ! i) = ue"
        unfolding wf_index_def by blast+
      with assms(5) show ?thesis by (simp add: nof_owned_0)
    qed
    have "count_list (rev [0 ..< n]) k = (if k < n then 1 else 0)" for k
      by (simp add: distinct_count_list)
    with True du u assms(4) none show ?thesis
      by (auto simp: reserve_ue_harqs_def)
  qed
qed

lemma timeout_handler_wf_budget:
  assumes "wf_budget s bud" "i < length (harqs s)" "handle_harq_ack_timeout i t s = Inr s'"
  shows "wf_budget s' bud"
proof -
  define s1 where "s1 = (if max_ack_wait_in_slots s \<noteq> 1
      then s\<lparr>timeouts_notified := timeouts_notified s @
               [(ue_idx (harqs s ! i), is_dl s, ack_on_timeout (harqs s ! i))]\<rparr> else s)"
  have w1: "wf_budget s1 bud"
    unfolding s1_def using assms(1) by (simp add: wf_budget_def)
  have h1: "harqs s1 = harqs s" by (simp add: s1_def)
  from assms(3) have st: "s' = dealloc_harq i s1"
    by (auto simp: handle_harq_ack_timeout_def Let_def s1_def split: if_splits)
  show ?thesis unfolding st using w1 assms(2) h1 by (simp add: dealloc_wf_budget)
qed

lemma slot_indication_wf_budget:
  assumes "wf_budget s bud" "repo_wf s" "slot_indication t s = Inr s'"
  shows "wf_budget s' bud"
proof (cases "harq_timeout_wheel s ! wheel_slot s t")
  case Nil
  with assms show ?thesis by (simp add: slot_indication_def)
next
  case (Cons i xs)
  have w: "wf_wheel s" using assms(2) by (simp add: repo_wf_def)
  from assms(3) Cons have "handle_harq_ack_timeout i t s = Inr s'"
    by (simp add: slot_indication_def)
  with assms(1) bucket_front(1) [OF w Cons] show ?thesis by (rule timeout_handler_wf_budget)
qed

subsection \<open>destroy\<close>

lemma destroy_loop_budget:
  "repo_wf s \<Longrightarrow> wf_budget s bud \<Longrightarrow> ue < length (ues s) \<Longrightarrow>
   \<forall>k\<in>set ks. k < length (ue_harqs (ues s ! ue)) \<Longrightarrow>
   wf_budget (destroy_loop ks ue s) bud \<and>
   (\<forall>k < length (ue_harqs (ues s ! ue)).
      k \<in> set ks \<or> ue_harqs (ues s ! ue) ! k = None \<longrightarrow>
      ue_harqs (ues (destroy_loop ks ue s) ! ue) ! k = None)"
proof (induction ks arbitrary: s)
  case Nil
  then show ?case by simp
next
  case (Cons k ks)
  from Cons.prems have k: "k < length (ue_harqs (ues s ! ue))" by simp
  show ?case
  proof (cases "ue_harqs (ues s ! ue) ! k")
    case None
    with Cons.IH [of s] Cons.prems show ?thesis by auto
  next
    case (Some i)
    from Cons.prems(1) have x: "wf_index s" by (simp add: repo_wf_def)
    with Cons.prems(3) k Some have i: "i < length (harqs s)" "status (harqs s ! i) \<noteq> empty_harq"
      "ue_idx (harqs s ! i) = ue" "h_id (harqs s ! i) = k"
      unfolding wf_index_def by blast+
    let ?s1 = "dealloc_harq i s"
    have w1: "repo_wf ?s1" using Cons.prems(1) i(1) by (rule dealloc_repo_wf)
    have b1: "wf_budget ?s1 bud" using Cons.prems(2) i(1) by (rule dealloc_wf_budget)
    have u1: "ue < length (ues ?s1)" using Cons.prems(3) by simp
    have e1: "ue_harqs (ues ?s1 ! ue) = (ue_harqs (ues s ! ue))[k := None]"
      using i Cons.prems(3) by (simp add: dealloc_ue_harqs)
    have k1: "\<forall>k\<in>set ks. k < length (ue_harqs (ues ?s1 ! ue))"
      using Cons.prems(4) by (simp add: e1)
    note IH = Cons.IH [OF w1 b1 u1 k1]
    show ?thesis
      using IH Some k by (auto simp: e1 nth_upd_if)
  qed
qed

lemma destroy_wf_budget:
  assumes "wf_budget s bud" "repo_wf s" "ue < length (ues s)"
  shows "wf_budget (destroy_ue_harqs ue s) (bud(ue := 0))"
proof -
  define s1 where "s1 = destroy_loop [0 ..< length (ue_harqs (ues s ! ue))] ue s"
  have ks: "\<forall>k\<in>set [0 ..< length (ue_harqs (ues s ! ue))]. k < length (ue_harqs (ues s ! ue))"
    by simp
  from destroy_loop_budget [OF assms(2,1,3) ks]
  have b1: "wf_budget s1 bud"
    and n1: "\<forall>k < length (ue_harqs (ues s ! ue)). ue_harqs (ues s1 ! ue) ! k = None"
    by (simp_all add: s1_def)
  from destroy_loop_wf [OF assms(2,3) ks]
  have l1: "length (ues s1) = length (ues s)" "length (harqs s1) = length (harqs s)"
    by (simp_all add: s1_def)
  have u1: "ue < length (ues s1)" using assms(3) l1 by simp
  have len: "length (ue_harqs (ues s ! ue)) = MAX_NOF_HARQS"
    using wf_budgetD2 [OF assms(1,3)] by simp
  note d1 = wf_budgetD2 [OF b1 u1]
  have eq: "destroy_ue_harqs ue s = s1\<lparr>ues := (ues s1)[ue := (ues s1 ! ue)\<lparr>free_harq_ids := []\<rparr>]\<rparr>"
    by (simp add: destroy_ue_harqs_def Let_def s1_def)
  show ?thesis
    unfolding eq
  proof (rule wf_budgetI)
    fix i
    assume "i < length (harqs (s1\<lparr>ues := (ues s1)[ue := (ues s1 ! ue)\<lparr>free_harq_ids := []\<rparr>]\<rparr>))"
      and "status (harqs (s1\<lparr>ues := (ues s1)[ue := (ues s1 ! ue)\<lparr>free_harq_ids := []\<rparr>]\<rparr>) ! i)
             \<noteq> empty_harq"
    then have i: "i < length (harqs s1)" and st: "status (harqs s1 ! i) \<noteq> empty_harq"
      by simp_all
    note di = wf_budgetD1 [OF b1 i st]
    have "ue_idx (harqs s1 ! i) \<noteq> ue"
    proof
      assume e: "ue_idx (harqs s1 ! i) = ue"
      with di d1 have "h_id (harqs s1 ! i) < MAX_NOF_HARQS" by simp
      with n1 len have "ue_harqs (ues s1 ! ue) ! h_id (harqs s1 ! i) = None" by simp
      with di e show False by simp
    qed
    with di show "ue_idx (harqs (s1\<lparr>ues := (ues s1)[ue := (ues s1 ! ue)\<lparr>free_harq_ids := []\<rparr>]\<rparr>) ! i)
          < length (ues (s1\<lparr>ues := (ues s1)[ue := (ues s1 ! ue)\<lparr>free_harq_ids := []\<rparr>]\<rparr>)) \<and>
        h_id (harqs (s1\<lparr>ues := (ues s1)[ue := (ues s1 ! ue)\<lparr>free_harq_ids := []\<rparr>]\<rparr>) ! i)
          < (bud(ue := 0))
              (ue_idx (harqs (s1\<lparr>ues := (ues s1)[ue := (ues s1 ! ue)\<lparr>free_harq_ids := []\<rparr>]\<rparr>) ! i)) \<and>
        ue_harqs (ues (s1\<lparr>ues := (ues s1)[ue := (ues s1 ! ue)\<lparr>free_harq_ids := []\<rparr>]\<rparr>) !
            ue_idx (harqs (s1\<lparr>ues := (ues s1)[ue := (ues s1 ! ue)\<lparr>free_harq_ids := []\<rparr>]\<rparr>) ! i)) !
          h_id (harqs (s1\<lparr>ues := (ues s1)[ue := (ues s1 ! ue)\<lparr>free_harq_ids := []\<rparr>]\<rparr>) ! i) = Some i"
      by simp
  next
    fix u
    assume "u < length (ues (s1\<lparr>ues := (ues s1)[ue := (ues s1 ! ue)\<lparr>free_harq_ids := []\<rparr>]\<rparr>))"
    then have u: "u < length (ues s1)" by simp
    note du = wf_budgetD2 [OF b1 u]
    show "(bud(ue := 0)) u \<le> MAX_NOF_HARQS \<and>
        length (ue_harqs (ues (s1\<lparr>ues := (ues s1)[ue := (ues s1 ! ue)\<lparr>free_harq_ids := []\<rparr>]\<rparr>) ! u))
          = MAX_NOF_HARQS \<and>
        (\<forall>k. count_list
               (free_harq_ids (ues (s1\<lparr>ues := (ues s1)[ue := (ues s1 ! ue)\<lparr>free_harq_ids := []\<rparr>]\<rparr>) ! u)) k =
             (if k < (bud(ue := 0)) u \<and>
                 ue_harqs (ues (s1\<lparr>ues := (ues s1)[ue := (ues s1 ! ue)\<lparr>free_harq_ids := []\<rparr>]\<rparr>) ! u) ! k = None
              then 1 else 0))"
      using du u by (cases "u = ue") simp_all
  qed
qed

lemma owned_entry:
  assumes "wf_budget s bud" "i < length (harqs s)" "status (harqs s ! i) \<noteq> empty_harq"
      "ue_idx (harqs s ! i) = ue"
  shows "h_id (harqs s ! i) < bud ue \<and> ue_harqs (ues s ! ue) ! h_id (harqs s ! i) = Some i"
  using wf_budgetD1 [OF assms(1,2,3)] assms(4) by simp

lemma owned_inj:
  assumes "wf_budget s bud"
  shows "inj_on (\<lambda>i. h_id (harqs s ! i)) (owned_set s ue)"
proof (rule inj_onI)
  fix i j
  assume i: "i \<in> owned_set s ue" and j: "j \<in> owned_set s ue"
    and e: "h_id (harqs s ! i) = h_id (harqs s ! j)"
  from i have i': "i < length (harqs s)" "status (harqs s ! i) \<noteq> empty_harq"
    "ue_idx (harqs s ! i) = ue" by (simp_all add: owned_set_def)
  from j have j': "j < length (harqs s)" "status (harqs s ! j) \<noteq> empty_harq"
    "ue_idx (harqs s ! j) = ue" by (simp_all add: owned_set_def)
  from owned_entry [OF assms i'] have a: "ue_harqs (ues s ! ue) ! h_id (harqs s ! i) = Some i" ..
  from owned_entry [OF assms j'] have b: "ue_harqs (ues s ! ue) ! h_id (harqs s ! j) = Some j" ..
  from a b e have "Some i = Some j" by (simp only:)
  then show "i = j" by (simp only: option.inject)
qed

lemma owned_below:
  assumes "wf_budget s bud"
  shows "(\<lambda>i. h_id (harqs s ! i)) ` owned_set s ue \<subseteq> {..< bud ue}"
proof
  fix k
  assume "k \<in> (\<lambda>i. h_id (harqs s ! i)) ` owned_set s ue"
  then obtain i where i: "i \<in> owned_set s ue" and k: "k = h_id (harqs s ! i)" ..
  from i have i': "i < length (harqs s)" "status (harqs s ! i) \<noteq> empty_harq"
    "ue_idx (harqs s ! i) = ue" by (simp_all add: owned_set_def)
  from owned_entry [OF assms i'] have "h_id (harqs s ! i) < bud ue" ..
  with k show "k \<in> {..< bud ue}" by simp
qed

lemma nof_owned_card: "nof_owned s ue = card (owned_set s ue)"
  unfolding nof_owned_def owned_set_def by (rule length_filter_conv_card)

lemma nof_owned_le_budget:
  assumes "wf_budget s bud"
  shows "nof_owned s ue \<le> bud ue"
proof -
  have "card (owned_set s ue) \<le> card {..< bud ue}"
    by (rule card_inj_on_le [OF owned_inj [OF assms] owned_below [OF assms]]) simp
  then show ?thesis by (simp add: nof_owned_card)
qed

lemma admitted_in_range: "admitted r x \<Longrightarrow> in_range r x"
  by (cases x) simp_all

lemma apply_op_wf_budget:
  assumes "repo_wf s" "wf_budget s bud" "admitted s x" "apply_op x s = Inr s'"
  shows "wf_budget s' (budgets bud [x])"
proof (cases x)
  case (Reserve ue n)
  with assms show ?thesis by (auto simp: reserve_wf_budget)
next
  case (Alloc ue t1 t2 mx)
  with assms show ?thesis by (auto simp: alloc_wf_budget)
next
  case (HandleAck i a)
  with assms show ?thesis by (auto simp: handle_ack_wf_budget)
next
  case (Dealloc i)
  with assms show ?thesis by (auto simp: dealloc_wf_budget)
next
  case (Destroy ue)
  with assms show ?thesis by (auto simp: destroy_wf_budget)
next
  case (SlotInd t)
  with assms show ?thesis by (auto simp: slot_indication_wf_budget)
next
  case (CancelRetxs i)
  with assms show ?thesis by (auto simp: cancel_retxs_wf_budget)
qed

lemma budgets_Cons: "budgets bud (x # xs) = budgets (budgets bud [x]) xs"
  by (cases x) simp_all

lemma run_ops_wf_budget:
  "repo_wf s \<Longrightarrow> wf_budget s bud \<Longrightarrow> run_ops admitted xs s = Some s' \<Longrightarrow>
   wf_budget s' (budgets bud xs)"
proof (induction xs arbitrary: s bud)
  case Nil
  then show ?case by simp
next
  case (Cons x xs)
  from Cons.prems(3) have ok: "admitted s x" by (simp split: if_splits)
  from Cons.prems(3) ok obtain s1 where s1: "apply_op x s = Inr s1" "run_ops admitted xs s1 = Some s'"
    by (auto split: sum.splits)
  from apply_op_wf [OF Cons.prems(1) admitted_in_range [OF ok]] s1(1)
  have w1: "repo_wf s1" by simp
  have b1: "wf_budget s1 (budgets bud [x])"
    by (rule apply_op_wf_budget [OF Cons.prems(1,2) ok s1(1)])
  from Cons.IH [OF w1 b1 s1(2)] show ?case by (simp add: budgets_Cons [of bud x xs])
qed

subsection \<open>Exclusive membership from well-formedness\<close>

lemma count_list_concat:
  "count_list (concat xss) i = (\<Sum>b < length xss. count_list (xss ! b) i)"
proof (induction xss rule: rev_induct)
  case Nil
  then show ?case by simp
next
  case (snoc xs xss)
  then show ?case by (simp add: nth_append)
qed

lemma repo_wf_exclusive:
  assumes "repo_wf s"
  shows "exclusive_membership s"
  unfolding exclusive_membership_def
proof (intro allI impI conjI)
  fix i assume i: "i < length (harqs s)"
  have w: "wf_wheel s" and p: "wf_pending s" using assms by (simp_all add: repo_wf_def)
  define b0 where "b0 = wheel_slot s (slot_ack_timeout (harqs s ! i))"
  have b0: "b0 < length (harq_timeout_wheel s)" unfolding b0_def by (rule wheel_slot_lt [OF w])
  have c: "\<And>b. b < length (harq_timeout_wheel s) \<Longrightarrow>
      count_list (harq_timeout_wheel s ! b) i =
        (if b = b0 then (if status (harqs s ! i) = waiting_ack then 1 else 0) else 0)"
    using w i unfolding wf_wheel_count b0_def by auto
  have "count_list (concat (harq_timeout_wheel s)) i =
      (\<Sum>b < length (harq_timeout_wheel s).
         (if b = b0 then (if status (harqs s ! i) = waiting_ack then 1 else 0) else 0))"
    unfolding count_list_concat by (rule sum.cong) (simp_all add: c)
  also have "\<dots> = (if status (harqs s ! i) = waiting_ack then 1 else 0)"
    using b0 by simp
  finally show "count_list (concat (harq_timeout_wheel s)) i =
      (if status (harqs s ! i) = waiting_ack then 1 else 0)" .
  show "count_list (harq_pending_retx_list s) i =
      (if status (harqs s ! i) = pending_retx then 1 else 0)"
    using p i unfolding wf_pending_count by simp
  show "i \<in> set (harq_timeout_wheel s ! wheel_slot s (slot_ack_timeout (harqs s ! i)))"
    if "status (harqs s ! i) = waiting_ack"
    using w i that b0 unfolding wf_wheel_def b0_def by blast
qed

subsection \<open>Manager operations\<close>

lemma harqs_upd_wf:
  assumes "repo_wf s" "i < length (harqs s)"
    "status h = status (harqs s ! i)" "slot_ack_timeout h = slot_ack_timeout (harqs s ! i)"
    "ue_idx h = ue_idx (harqs s ! i)" "h_id h = h_id (harqs s ! i)"
  shows "repo_wf (s\<lparr>harqs := (harqs s)[i := h]\<rparr>)"
  by (rule repo_wf_cong [OF assms(1)]) (use assms in \<open>auto simp: nth_upd_if\<close>)

lemma new_dl_tx_wf:
  assumes "repo_wf (dl m)" "ue < length (ues (dl m))"
  shows "repo_wf (dl (snd (new_dl_tx ue t k1 mx bidx m))) \<and>
         ul (snd (new_dl_tx ue t k1 mx bidx m)) = ul m \<and>
         length (harqs (dl (snd (new_dl_tx ue t k1 mx bidx m)))) = length (harqs (dl m)) \<and>
         length (ues (dl (snd (new_dl_tx ue t k1 mx bidx m)))) = length (ues (dl m))"
proof (cases "alloc_harq ue t (t + k1) mx (dl m)")
  case (Pair r d)
  have d: "d = snd (alloc_harq ue t (t + k1) mx (dl m))" using Pair by simp
  have wd: "repo_wf d" unfolding d using assms by (rule alloc_repo_wf)
  have ld: "length (harqs d) = length (harqs (dl m))" "length (ues d) = length (ues (dl m))"
    unfolding d by simp_all
  show ?thesis
  proof (cases r)
    case None
    with Pair assms show ?thesis by (simp add: new_dl_tx_def)
  next
    case (Some i)
    have "i < length (harqs d)"
    proof -
      from Pair Some have "free_harqs (dl m) \<noteq> []" "i = last (free_harqs (dl m))"
        by (auto simp: alloc_harq_def Let_def split: if_splits)
      with assms(1) ld show ?thesis using last_free_empty [of "dl m"] by (simp add: repo_wf_def)
    qed
    then have "repo_wf (d\<lparr>harqs := (harqs d)[i := (harqs d ! i)
                \<lparr>tbs_bytes := 0, harq_bit_idx := bidx mod 256, pucch_ack_to_receive := 0,
                 chosen_ack := dtx, last_pucch_snr := None\<rparr>]\<rparr>)"
      by (intro harqs_upd_wf [OF wd]) simp_all
    with Pair Some ld show ?thesis by (simp add: new_dl_tx_def)
  qed
qed

lemma new_ul_tx_wf:
  assumes "repo_wf (ul m)" "ue < length (ues (ul m))"
  shows "repo_wf (ul (snd (new_ul_tx ue t mx m))) \<and>
         dl (snd (new_ul_tx ue t mx m)) = dl m \<and>
         length (harqs (ul (snd (new_ul_tx ue t mx m)))) = length (harqs (ul m)) \<and>
         length (ues (ul (snd (new_ul_tx ue t mx m)))) = length (ues (ul m))"
proof (cases "alloc_harq ue t t mx (ul m)")
  case (Pair r d)
  have d: "d = snd (alloc_harq ue t t mx (ul m))" using Pair by simp
  have wd: "repo_wf d" unfolding d using assms by (rule alloc_repo_wf)
  have ld: "length (harqs d) = length (harqs (ul m))" "length (ues d) = length (ues (ul m))"
    unfolding d by simp_all
  show ?thesis
  proof (cases r)
    case None
    with Pair assms show ?thesis by (simp add: new_ul_tx_def)
  next
    case (Some i)
    have "i < length (harqs d)"
    proof -
      from Pair Some have "free_harqs (ul m) \<noteq> []" "i = last (free_harqs (ul m))"
        by (auto simp: alloc_harq_def Let_def split: if_splits)
      with assms(1) ld show ?thesis using last_free_empty [of "ul m"] by (simp add: repo_wf_def)
    qed
    then have "repo_wf (d\<lparr>harqs := (harqs d)[i := (harqs d ! i)\<lparr>tbs_bytes := 0\<rparr>]\<rparr>)"
      by (intro harqs_upd_wf [OF wd]) simp_all
    with Pair Some ld show ?thesis by (simp add: new_ul_tx_def)
  qed
qed

lemma retime_wf:
  assumes "repo_wf s" "i < length (harqs s)" "status (harqs s ! i) = waiting_ack"
    "status h = waiting_ack" "ue_idx h = ue_idx (harqs s ! i)" "h_id h = h_id (harqs s ! i)"
    "b_old = wheel_slot s (slot_ack_timeout (harqs s ! i))"
    "b_new = wheel_slot s (slot_ack_timeout h)"
    "w1 = (harq_timeout_wheel s)[b_old := remove1 i (harq_timeout_wheel s ! b_old)]"
    "w2 = w1[b_new := i # (w1 ! b_new)]"
  shows "repo_wf (s\<lparr>harqs := (harqs s)[i := h], harq_timeout_wheel := w2\<rparr>)"
proof -
  let ?s' = "s\<lparr>harqs := (harqs s)[i := h], harq_timeout_wheel := w2\<rparr>"
  have w: "wf_wheel s" and f: "wf_free s" and p: "wf_pending s" and x: "wf_index s"
    using assms(1) by (simp_all add: repo_wf_def)
  have bo: "b_old < length (harq_timeout_wheel s)" unfolding assms(7) by (rule wheel_slot_lt [OF w])
  have bn: "b_new < length (harq_timeout_wheel s)" unfolding assms(8) by (rule wheel_slot_lt [OF w])
  have lw: "length w2 = length (harq_timeout_wheel s)" by (simp add: assms(9,10))
  have a: "wf_free ?s'"
    using f assms(2,3,4) unfolding wf_free_count by (auto simp: nth_upd_if)
  have c: "wf_pending ?s'"
    using p assms(2,3,4) unfolding wf_pending_count by (auto simp: nth_upd_if)
  have d: "wf_index ?s'"
    using x assms(2,3,4,5,6) unfolding wf_index_def by (auto simp: nth_upd_if)
  have ws: "\<And>t. wheel_slot ?s' t = wheel_slot s t"
    by (simp add: wheel_slot_def lw)
  have nth2: "\<And>b. b < length (harq_timeout_wheel s) \<Longrightarrow>
      w2 ! b = (if b = b_new then i # (if b = b_old then remove1 i (harq_timeout_wheel s ! b)
                                      else harq_timeout_wheel s ! b)
                else if b = b_old then remove1 i (harq_timeout_wheel s ! b)
                else harq_timeout_wheel s ! b)"
    using bo bn by (simp add: assms(9,10) nth_upd_if)
  have b: "wf_wheel ?s'"
    unfolding wf_wheel_count ws
  proof (intro conjI allI impI)
    show "length (harq_timeout_wheel ?s') = RING_SIZE"
      using w by (simp add: lw wf_wheel_def)
  next
    fix b j
    assume "b < length (harq_timeout_wheel ?s')"
    then have b: "b < length (harq_timeout_wheel s)" by (simp add: lw)
    have old: "count_list (harq_timeout_wheel s ! b) j =
        (if j < length (harqs s) \<and> status (harqs s ! j) = waiting_ack \<and>
            wheel_slot s (slot_ack_timeout (harqs s ! j)) = b then 1 else 0)"
      using w b unfolding wf_wheel_count by simp
    show "count_list (harq_timeout_wheel ?s' ! b) j =
        (if j < length (harqs ?s') \<and> status (harqs ?s' ! j) = waiting_ack \<and>
            wheel_slot s (slot_ack_timeout (harqs ?s' ! j)) = b then 1 else 0)"
    proof (cases "j = i")
      case True
      with old assms(2,3,4) b show ?thesis
        by (auto simp: nth2 nth_upd_if assms(7,8))
    next
      case False
      with old b show ?thesis
        by (auto simp: nth2 nth_upd_if)
    qed
  qed
  from a b c d show ?thesis by (simp add: repo_wf_def)
qed

lemma merged_fields [simp]:
  "status (merged h a snr) = status h"
  "slot_ack_timeout (merged h a snr) = slot_ack_timeout h"
  "ue_idx (merged h a snr) = ue_idx h"
  "h_id (merged h a snr) = h_id h"
  "pucch_ack_to_receive (merged h a snr) = pucch_ack_to_receive h"
  "nof_retxs (merged h a snr) = nof_retxs h"
  "max_nof_harq_retxs (merged h a snr) = max_nof_harq_retxs h"
  "ndi (merged h a snr) = ndi h"
  by (simp_all add: merged_def)

lemma dl_ack_info_error:
  "status (harqs (dl m) ! i) \<noteq> waiting_ack \<Longrightarrow> dl_ack_info i a snr m = Inr (error, m)"
  by (simp add: dl_ack_info_def Let_def)

lemma dl_ack_info_final:
  "status (harqs (dl m) ! i) = waiting_ack \<Longrightarrow> pucch_ack_to_receive (harqs (dl m) ! i) \<le> 1 \<Longrightarrow>
   dl_ack_info i a snr m =
     (case handle_ack i (chosen_ack (merged (harqs (dl m) ! i) a snr) = ack)
             ((dl m)\<lparr>harqs := (harqs (dl m))[i := merged (harqs (dl m) ! i) a snr]\<rparr>) of
        Inl e \<Rightarrow> Inl e
      | Inr d2 \<Rightarrow> Inr (if chosen_ack (merged (harqs (dl m) ! i) a snr) = ack then acked else nacked,
                       m\<lparr>dl := d2\<rparr>))"
  by (simp add: dl_ack_info_def Let_def merged_def)

lemma dl_ack_info_more:
  "status (harqs (dl m) ! i) = waiting_ack \<Longrightarrow> 1 < pucch_ack_to_receive (harqs (dl m) ! i) \<Longrightarrow>
   dl_ack_info i a snr m =
     Inr (no_update,
       m\<lparr>dl := (dl m)\<lparr>harqs := (harqs (dl m))[i := (merged (harqs (dl m) ! i) a snr)
                \<lparr>pucch_ack_to_receive := pucch_ack_to_receive (harqs (dl m) ! i) - 1,
                 ack_on_timeout := (chosen_ack (merged (harqs (dl m) ! i) a snr) = ack),
                 slot_ack_timeout := last_sl_tx m + short_ack_timeout_dtx m\<rparr>],
              harq_timeout_wheel :=
                ((harq_timeout_wheel (dl m))
                   [wheel_slot (dl m) (slot_ack_timeout (harqs (dl m) ! i)) :=
                      remove1 i (harq_timeout_wheel (dl m) !
                        wheel_slot (dl m) (slot_ack_timeout (harqs (dl m) ! i)))])
                [wheel_slot (dl m) (last_sl_tx m + short_ack_timeout_dtx m) :=
                   i # (((harq_timeout_wheel (dl m))
                     [wheel_slot (dl m) (slot_ack_timeout (harqs (dl m) ! i)) :=
                        remove1 i (harq_timeout_wheel (dl m) !
                          wheel_slot (dl m) (slot_ack_timeout (harqs (dl m) ! i)))]) !
                     wheel_slot (dl m) (last_sl_tx m + short_ack_timeout_dtx m))]\<rparr>\<rparr>)"
  by (simp add: dl_ack_info_def Let_def merged_def pop_def push_front_def wheel_slot_def)

lemma dl_ack_info_wf:
  assumes "repo_wf (dl m)" "i < length (harqs (dl m))" "dl_ack_info i a snr m = Inr (r, m')"
  shows "repo_wf (dl m') \<and> ul m' = ul m \<and> length (harqs (dl m')) = length (harqs (dl m)) \<and>
         length (ues (dl m')) = length (ues (dl m))"
proof (cases "status (harqs (dl m) ! i) = waiting_ack")
  case False
  with assms show ?thesis by (simp add: dl_ack_info_error)
next
  case True
  define h1 where "h1 = merged (harqs (dl m) ! i) a snr"
  define d1 where "d1 = (dl m)\<lparr>harqs := (harqs (dl m))[i := h1]\<rparr>"
  have wd1: "repo_wf d1"
    unfolding d1_def by (rule harqs_upd_wf [OF assms(1,2)]) (simp_all add: h1_def)
  have l1: "length (harqs d1) = length (harqs (dl m))" "length (ues d1) = length (ues (dl m))"
    by (simp_all add: d1_def)
  show ?thesis
  proof (cases "pucch_ack_to_receive (harqs (dl m) ! i) \<le> 1")
    case le: True
    from assms(3) obtain d2 where d2: "handle_ack i (chosen_ack h1 = ack) d1 = Inr d2"
      and m': "m' = m\<lparr>dl := d2\<rparr>"
      by (auto simp: dl_ack_info_final [OF True le] h1_def d1_def split: sum.splits)
    from handle_ack_wf [OF wd1 _ d2] handle_ack_lengths [OF d2] assms(2) l1 m'
    show ?thesis by simp
  next
    case False
    then have gt: "1 < pucch_ack_to_receive (harqs (dl m) ! i)" by simp
    define h3 where "h3 = h1\<lparr>pucch_ack_to_receive := pucch_ack_to_receive (harqs (dl m) ! i) - 1,
                 ack_on_timeout := (chosen_ack h1 = ack),
                 slot_ack_timeout := last_sl_tx m + short_ack_timeout_dtx m\<rparr>"
    define b_old where "b_old = wheel_slot d1 (slot_ack_timeout (harqs d1 ! i))"
    define b_new where "b_new = wheel_slot d1 (slot_ack_timeout h3)"
    define w1 where "w1 = (harq_timeout_wheel d1)[b_old := remove1 i (harq_timeout_wheel d1 ! b_old)]"
    define w2 where "w2 = w1[b_new := i # (w1 ! b_new)]"
    have i1: "i < length (harqs d1)" using assms(2) l1 by simp
    have st1: "status (harqs d1 ! i) = waiting_ack" using True assms(2) by (simp add: d1_def h1_def)
    have "repo_wf (d1\<lparr>harqs := (harqs d1)[i := h3], harq_timeout_wheel := w2\<rparr>)"
      by (rule retime_wf [OF wd1 i1 st1 _ _ _ b_old_def b_new_def w1_def w2_def])
         (use True assms(2) in \<open>simp_all add: h3_def d1_def h1_def\<close>)
    moreover have "m' = m\<lparr>dl := d1\<lparr>harqs := (harqs d1)[i := h3], harq_timeout_wheel := w2\<rparr>\<rparr>"
      using assms(3) assms(2)
      by (simp add: dl_ack_info_more [OF True gt] w2_def w1_def b_new_def b_old_def h3_def d1_def
          h1_def wheel_slot_def)
    ultimately show ?thesis using l1 by simp
  qed
qed

lemma ul_crc_info_wf:
  assumes "repo_wf (ul m)" "i < length (harqs (ul m))" "ul_crc_info i a m = Inr (r, m')"
  shows "repo_wf (ul m') \<and> dl m' = dl m \<and> length (harqs (ul m')) = length (harqs (ul m)) \<and>
         length (ues (ul m')) = length (ues (ul m))"
proof (cases "status (harqs (ul m) ! i) = waiting_ack")
  case False
  with assms show ?thesis by (simp add: ul_crc_info_def Let_def)
next
  case True
  with assms(3) obtain u where u: "handle_ack i a (ul m) = Inr u" and m': "m' = m\<lparr>ul := u\<rparr>"
    by (auto simp: ul_crc_info_def Let_def split: sum.splits)
  from handle_ack_wf [OF assms(1,2) u] handle_ack_lengths [OF u] m' show ?thesis by simp
qed

subsection \<open>Retransmissions within the budget\<close>

lemma retx_cong:
  assumes "retx_within_budget s" "length (harqs s') = length (harqs s)"
    and "\<And>i. i < length (harqs s) \<Longrightarrow> status (harqs s' ! i) \<noteq> empty_harq \<Longrightarrow>
          (status (harqs s ! i) \<noteq> empty_harq \<and> nof_retxs (harqs s' ! i) = nof_retxs (harqs s ! i) \<and>
           max_nof_harq_retxs (harqs s' ! i) = max_nof_harq_retxs (harqs s ! i)) \<or>
          nof_retxs (harqs s' ! i) \<le> max_nof_harq_retxs (harqs s' ! i)"
  shows "retx_within_budget s'"
  unfolding retx_within_budget_def
proof (intro allI impI)
  fix i assume i: "i < length (harqs s')" and st: "status (harqs s' ! i) \<noteq> empty_harq"
  from i have i': "i < length (harqs s)" by (simp add: assms(2))
  from assms(3) [OF i' st] assms(1) i'
  show "nof_retxs (harqs s' ! i) \<le> max_nof_harq_retxs (harqs s' ! i)"
    unfolding retx_within_budget_def by auto
qed

lemma dealloc_retx:
  assumes "retx_within_budget s"
  shows "retx_within_budget (dealloc_harq i s)"
  by (rule retx_cong [OF assms]) (simp_all add: dealloc_harqs_nth split: if_splits)

lemma alloc_retx:
  assumes "retx_within_budget s"
  shows "retx_within_budget (snd (alloc_harq ue t1 t2 mx s))"
proof (cases "free_harqs s = [] \<or> free_harq_ids (ues s ! ue) = []")
  case True
  with assms show ?thesis by (simp add: alloc_harq_fail)
next
  case False
  then have ne: "free_harqs s \<noteq> []" "free_harq_ids (ues s ! ue) \<noteq> []" by simp_all
  show ?thesis
    by (rule retx_cong [OF assms]) (auto simp: alloc_harq_harqs [OF ne] nth_upd_if)
qed

lemma set_pending_retx_retx:
  assumes "retx_within_budget s" "set_pending_retx i s = Inr s'"
  shows "retx_within_budget s'"
proof (cases "status (harqs s ! i) = waiting_ack")
  case False
  with assms show ?thesis
    by (cases "status (harqs s ! i)") (simp_all add: set_pending_retx_cases)
next
  case True
  with assms(2) have "harqs s' = (harqs s)[i := (harqs s ! i)\<lparr>status := pending_retx\<rparr>]"
    by (auto simp: set_pending_retx_cases)
  with True show ?thesis
    by (intro retx_cong [OF assms(1)]) (auto simp: nth_upd_if split: if_splits)
qed

lemma handle_ack_retx:
  assumes "retx_within_budget s" "handle_ack i a s = Inr s'"
  shows "retx_within_budget s'"
proof (cases "a \<or> max_nof_harq_retxs (harqs s ! i) \<le> nof_retxs (harqs s ! i)")
  case True
  with assms(2) have "s' = dealloc_harq i s" by (auto simp: handle_ack_def Let_def)
  with assms(1) show ?thesis by (simp add: dealloc_retx)
next
  case False
  with assms(2) have "set_pending_retx i s = Inr s'" by (auto simp: handle_ack_def Let_def)
  with assms(1) show ?thesis by (rule set_pending_retx_retx)
qed

lemma reserve_retx:
  "retx_within_budget s \<Longrightarrow> retx_within_budget (reserve_ue_harqs ue n s)"
  by (simp add: retx_within_budget_def reserve_ue_harqs_def)

lemma cancel_retx:
  assumes "retx_within_budget s"
  shows "retx_within_budget (cancel_retxs i s)"
proof (cases "status (harqs s ! i) = empty_harq")
  case True
  with assms show ?thesis by (simp add: cancel_retxs_def)
next
  case False
  then have e: "cancel_retxs i s = s\<lparr>harqs := (harqs s)[i := (harqs s ! i)
      \<lparr>max_nof_harq_retxs := nof_retxs (harqs s ! i), retxs_cancelled := True\<rparr>]\<rparr>"
    by (simp add: cancel_retxs_def Let_def)
  show ?thesis
    unfolding e using False
    by (intro retx_cong [OF assms]) (auto simp: nth_upd_if split: if_splits)
qed

lemma destroy_loop_retx:
  "retx_within_budget s \<Longrightarrow> retx_within_budget (destroy_loop ks ue s)"
  by (induction ks arbitrary: s) (auto simp: dealloc_retx split: option.splits)

lemma destroy_retx:
  "retx_within_budget s \<Longrightarrow> retx_within_budget (destroy_ue_harqs ue s)"
  using destroy_loop_retx [of s "[0 ..< length (ue_harqs (ues s ! ue))]" ue]
  by (simp add: destroy_ue_harqs_def Let_def retx_within_budget_def)

lemma timeout_handler_retx:
  assumes "retx_within_budget s" "handle_harq_ack_timeout i t s = Inr s1"
  shows "retx_within_budget s1"
proof -
  have n: "retx_within_budget (s\<lparr>timeouts_notified := l\<rparr>)" for l
    using assms(1) by (simp add: retx_within_budget_def)
  from assms(2) have "s1 = dealloc_harq i s \<or> (\<exists>l. s1 = dealloc_harq i (s\<lparr>timeouts_notified := l\<rparr>))"
    by (auto simp: handle_harq_ack_timeout_def Let_def split: if_splits)
  with n assms(1) show ?thesis by (auto simp: dealloc_retx)
qed

lemma slot_indication_retx:
  "retx_within_budget s \<Longrightarrow> slot_indication t s = Inr s' \<Longrightarrow> retx_within_budget s'"
  unfolding slot_indication_def
  by (auto split: list.splits intro: timeout_handler_retx)

lemma apply_op_retx:
  assumes "retx_within_budget s" "apply_op x s = Inr s'"
  shows "retx_within_budget s'"
proof (cases x)
  case (Reserve ue n)
  with assms show ?thesis using reserve_retx [of s ue n] by auto
next
  case (Alloc ue t1 t2 mx)
  with assms show ?thesis using alloc_retx [of s ue t1 t2 mx] by auto
next
  case (HandleAck i a)
  with assms show ?thesis using handle_ack_retx [of s i a s'] by auto
next
  case (Dealloc i)
  with assms show ?thesis using dealloc_retx [of s i] by auto
next
  case (Destroy ue)
  with assms show ?thesis using destroy_retx [of s ue] by auto
next
  case (SlotInd t)
  with assms show ?thesis using slot_indication_retx [of s t s'] by auto
next
  case (CancelRetxs i)
  with assms show ?thesis using cancel_retx [of s i] by auto
qed

lemma run_ops_retx:
  "retx_within_budget s \<Longrightarrow> run_ops ok xs s = Some s' \<Longrightarrow> retx_within_budget s'"
proof (induction xs arbitrary: s)
  case Nil
  then show ?case by simp
next
  case (Cons x xs)
  from Cons.prems(2) obtain s1 where s1: "apply_op x s = Inr s1" "run_ops ok xs s1 = Some s'"
    by (auto split: sum.splits if_splits)
  from apply_op_retx [OF Cons.prems(1) s1(1)] s1(2) show ?case by (rule Cons.IH)
qed

lemma ctor_retx: "retx_within_budget (cell_harq_repository_ctor isdl n w)"
  by (simp add: retx_within_budget_def cell_harq_repository_ctor_def default_harq_def)

subsection \<open>Manager operations keep the invariants\<close>

lemma harqs_upd_retx:
  assumes "retx_within_budget s" "nof_retxs h = nof_retxs (harqs s ! i)"
    "max_nof_harq_retxs h = max_nof_harq_retxs (harqs s ! i)" "status h = status (harqs s ! i)"
  shows "retx_within_budget (s\<lparr>harqs := (harqs s)[i := h]\<rparr>)"
  using assms(2,3,4) by (intro retx_cong [OF assms(1)]) (auto simp: nth_upd_if split: if_splits)

lemma new_dl_tx_retx:
  assumes "retx_within_budget (dl m)"
  shows "retx_within_budget (dl (snd (new_dl_tx ue t k1 mx bidx m)))"
proof (cases "alloc_harq ue t (t + k1) mx (dl m)")
  case (Pair r d)
  have d: "d = snd (alloc_harq ue t (t + k1) mx (dl m))" using Pair by simp
  have rd: "retx_within_budget d" unfolding d using assms by (rule alloc_retx)
  show ?thesis
  proof (cases r)
    case None
    with Pair assms show ?thesis by (simp add: new_dl_tx_def)
  next
    case (Some i)
    have "retx_within_budget (d\<lparr>harqs := (harqs d)[i := (harqs d ! i)
                \<lparr>tbs_bytes := 0, harq_bit_idx := bidx mod 256, pucch_ack_to_receive := 0,
                 chosen_ack := dtx, last_pucch_snr := None\<rparr>]\<rparr>)"
      by (rule harqs_upd_retx [OF rd]) simp_all
    with Pair Some show ?thesis by (simp add: new_dl_tx_def)
  qed
qed

lemma new_ul_tx_retx:
  assumes "retx_within_budget (ul m)"
  shows "retx_within_budget (ul (snd (new_ul_tx ue t mx m)))"
proof (cases "alloc_harq ue t t mx (ul m)")
  case (Pair r d)
  have d: "d = snd (alloc_harq ue t t mx (ul m))" using Pair by simp
  have rd: "retx_within_budget d" unfolding d using assms by (rule alloc_retx)
  show ?thesis
  proof (cases r)
    case None
    with Pair assms show ?thesis by (simp add: new_ul_tx_def)
  next
    case (Some i)
    have "retx_within_budget (d\<lparr>harqs := (harqs d)[i := (harqs d ! i)\<lparr>tbs_bytes := 0\<rparr>]\<rparr>)"
      by (rule harqs_upd_retx [OF rd]) simp_all
    with Pair Some show ?thesis by (simp add: new_ul_tx_def)
  qed
qed

lemma alloc_dl_harq_snd: "snd (alloc_dl_harq ue t k1 mx bidx m) = snd (new_dl_tx ue t k1 mx bidx m)"
  by (cases "new_dl_tx ue t k1 mx bidx m") (auto simp: alloc_dl_harq_def split: option.splits)

lemma alloc_ul_harq_snd: "snd (alloc_ul_harq ue t mx m) = snd (new_ul_tx ue t mx m)"
  by (cases "new_ul_tx ue t mx m") (auto simp: alloc_ul_harq_def split: option.splits)

lemma retx_wheel_upd [simp]:
  "retx_within_budget (s\<lparr>harq_timeout_wheel := w\<rparr>) = retx_within_budget s"
  by (simp add: retx_within_budget_def)

lemma dl_ack_info_retx:
  assumes "retx_within_budget (dl m)" "dl_ack_info i a snr m = Inr (r, m')"
  shows "retx_within_budget (dl m')"
proof (cases "status (harqs (dl m) ! i) = waiting_ack")
  case False
  with assms show ?thesis by (simp add: dl_ack_info_error)
next
  case True
  define h1 where "h1 = merged (harqs (dl m) ! i) a snr"
  define d1 where "d1 = (dl m)\<lparr>harqs := (harqs (dl m))[i := h1]\<rparr>"
  have r1: "retx_within_budget d1"
    unfolding d1_def by (rule harqs_upd_retx [OF assms(1)]) (simp_all add: h1_def)
  show ?thesis
  proof (cases "pucch_ack_to_receive (harqs (dl m) ! i) \<le> 1")
    case le: True
    from assms(2) obtain d2 where d2: "handle_ack i (chosen_ack h1 = ack) d1 = Inr d2"
      and m': "m' = m\<lparr>dl := d2\<rparr>"
      by (auto simp: dl_ack_info_final [OF True le] h1_def d1_def split: sum.splits)
    from handle_ack_retx [OF r1 d2] m' show ?thesis by simp
  next
    case False
    then have gt: "1 < pucch_ack_to_receive (harqs (dl m) ! i)" by simp
    define h3 where "h3 = h1\<lparr>pucch_ack_to_receive := pucch_ack_to_receive (harqs (dl m) ! i) - 1,
                 ack_on_timeout := (chosen_ack h1 = ack),
                 slot_ack_timeout := last_sl_tx m + short_ack_timeout_dtx m\<rparr>"
    have "retx_within_budget ((dl m)\<lparr>harqs := (harqs (dl m))[i := h3]\<rparr>)"
      by (rule harqs_upd_retx [OF assms(1)]) (simp_all add: h3_def h1_def)
    moreover from assms(2) have "\<exists>w. dl m' = (dl m)\<lparr>harqs := (harqs (dl m))[i := h3], harq_timeout_wheel := w\<rparr>"
      by (auto simp: dl_ack_info_more [OF True gt] h3_def h1_def)
    ultimately show ?thesis by auto
  qed
qed

lemma ul_crc_info_retx:
  assumes "retx_within_budget (ul m)" "ul_crc_info i a m = Inr (r, m')"
  shows "retx_within_budget (ul m')"
proof (cases "status (harqs (ul m) ! i) = waiting_ack")
  case False
  with assms show ?thesis by (simp add: ul_crc_info_def Let_def)
next
  case True
  with assms(2) obtain u where u: "handle_ack i a (ul m) = Inr u" and m': "m' = m\<lparr>ul := u\<rparr>"
    by (auto simp: ul_crc_info_def Let_def split: sum.splits)
  from handle_ack_retx [OF assms(1) u] m' show ?thesis by simp
qed

lemma apply_mgr_op_inv:
  assumes "mgr_inv m" "mgr_in_range m x" "apply_mgr_op x m = Inr m'"
  shows "mgr_inv m' \<and>
     length (harqs (dl m')) = length (harqs (dl m)) \<and> length (ues (dl m')) = length (ues (dl m)) \<and>
     length (harqs (ul m')) = length (harqs (ul m)) \<and> length (ues (ul m')) = length (ues (ul m))"
proof -
  have wd: "repo_wf (dl m)" and wu: "repo_wf (ul m)"
    and rd: "retx_within_budget (dl m)" and ru: "retx_within_budget (ul m)"
    using assms(1) by (simp_all add: mgr_inv_def)
  show ?thesis
  proof (cases x)
    case (AddUe ue ndl nul)
    with assms(3) have "m' = m\<lparr>dl := reserve_ue_harqs ue ndl (dl m), ul := reserve_ue_harqs ue nul (ul m)\<rparr>"
      by (auto simp: add_ue_def split: if_splits)
    with wd wu rd ru show ?thesis
      by (simp add: mgr_inv_def reserve_wf reserve_retx)
  next
    case (DestroyUe ue)
    with assms(2,3) wd wu rd ru show ?thesis
      by (auto simp: mgr_inv_def destroy_ue_def destroy_wf destroy_retx destroy_lengths)
  next
    case (AllocDlHarq ue t k1 mx bidx)
    with assms(2) have u: "ue < length (ues (dl m))" by simp
    from AllocDlHarq assms(3) have m': "m' = snd (new_dl_tx ue t k1 mx bidx m)"
      by (simp add: alloc_dl_harq_snd)
    from new_dl_tx_wf [OF wd u, of t k1 mx bidx] new_dl_tx_retx [OF rd, of ue t k1 mx bidx] wu ru
    show ?thesis unfolding m' by (simp add: mgr_inv_def)
  next
    case (AllocUlHarq ue t mx)
    with assms(2) have u: "ue < length (ues (ul m))" by simp
    from AllocUlHarq assms(3) have m': "m' = snd (new_ul_tx ue t mx m)"
      by (simp add: alloc_ul_harq_snd)
    from new_ul_tx_wf [OF wu u, of t mx] new_ul_tx_retx [OF ru, of ue t mx] wd rd
    show ?thesis unfolding m' by (simp add: mgr_inv_def)
  next
    case (IncrementPucchCounter i)
    with assms(2) have i: "i < length (harqs (dl m))" by simp
    from IncrementPucchCounter assms(3)
    have m': "m' = m\<lparr>dl := (dl m)\<lparr>harqs := (harqs (dl m))[i := (harqs (dl m) ! i)
            \<lparr>pucch_ack_to_receive := pucch_ack_to_receive (harqs (dl m) ! i) + 1\<rparr>]\<rparr>\<rparr>"
      by (simp add: increment_pucch_counter_def)
    have "repo_wf ((dl m)\<lparr>harqs := (harqs (dl m))[i := (harqs (dl m) ! i)
            \<lparr>pucch_ack_to_receive := pucch_ack_to_receive (harqs (dl m) ! i) + 1\<rparr>]\<rparr>)"
      by (rule harqs_upd_wf [OF wd i]) simp_all
    moreover have "retx_within_budget ((dl m)\<lparr>harqs := (harqs (dl m))[i := (harqs (dl m) ! i)
            \<lparr>pucch_ack_to_receive := pucch_ack_to_receive (harqs (dl m) ! i) + 1\<rparr>]\<rparr>)"
      by (rule harqs_upd_retx [OF rd]) simp_all
    ultimately show ?thesis using wu ru by (simp add: m' mgr_inv_def)
  next
    case (DlAckInfo i a snr)
    with assms(2) have i: "i < length (harqs (dl m))" by simp
    from DlAckInfo assms(3) obtain r where r: "dl_ack_info i a snr m = Inr (r, m')"
      by (auto split: sum.splits)
    from dl_ack_info_wf [OF wd i r] dl_ack_info_retx [OF rd r] wu ru
    show ?thesis by (simp add: mgr_inv_def)
  next
    case (UlCrcInfo i a)
    with assms(2) have i: "i < length (harqs (ul m))" by simp
    from UlCrcInfo assms(3) obtain r where r: "ul_crc_info i a m = Inr (r, m')"
      by (auto split: sum.splits)
    from ul_crc_info_wf [OF wu i r] ul_crc_info_retx [OF ru r] wd rd
    show ?thesis by (simp add: mgr_inv_def)
  next
    case (CancelHarqRetxs d i)
    with assms(3) wd wu rd ru show ?thesis
      by (cases d) (auto simp: mgr_inv_def cancel_retxs_wf cancel_retx)
  next
    case (SlotIndication t)
    with assms(3) obtain d u where d: "slot_indication t (dl m) = Inr d"
      and u: "slot_indication t (ul m) = Inr u" and m': "m' = m\<lparr>last_sl_tx := t, dl := d, ul := u\<rparr>"
      by (auto simp: mgr_slot_indication_def split: sum.splits)
    from slot_indication_wf [OF wd, of t] d slot_indication_wf [OF wu, of t] u
      slot_indication_retx [OF rd d] slot_indication_retx [OF ru u]
    show ?thesis by (simp add: m' mgr_inv_def)
  qed
qed

lemma ctor_mgr_inv: "mgr_inv (cell_harq_manager_ctor n w t)"
  by (simp add: mgr_inv_def cell_harq_manager_ctor_def ctor_wf ctor_retx)

lemma run_mgr_inv:
  "mgr_inv m \<Longrightarrow> run_mgr xs m = Some m' \<Longrightarrow>
   mgr_inv m' \<and>
     length (harqs (dl m')) = length (harqs (dl m)) \<and> length (ues (dl m')) = length (ues (dl m)) \<and>
     length (harqs (ul m')) = length (harqs (ul m)) \<and> length (ues (ul m')) = length (ues (ul m))"
proof (induction xs arbitrary: m)
  case Nil
  then show ?case by simp
next
  case (Cons x xs)
  from Cons.prems(2) have ok: "mgr_in_range m x" by (simp split: if_splits)
  from Cons.prems(2) ok obtain m1 where m1: "apply_mgr_op x m = Inr m1" "run_mgr xs m1 = Some m'"
    by (auto split: sum.splits)
  note a = apply_mgr_op_inv [OF Cons.prems(1) ok m1(1)]
  from a have i1: "mgr_inv m1" by simp
  from Cons.IH [OF i1 m1(2)] a show ?case by simp
qed

lemma reachable_inv:
  assumes "reachable s"
  shows "repo_wf s \<and> retx_within_budget s"
proof -
  from assms consider
    (repo) xs isdl n w where "run_ops in_range xs (cell_harq_repository_ctor isdl n w) = Some s"
  | (mgr) ys n w t m where "run_mgr ys (cell_harq_manager_ctor n w t) = Some m" "s = dl m \<or> s = ul m"
    unfolding reachable_def by blast
  then show ?thesis
  proof cases
    case repo
    have "repo_wf s \<and> length (harqs s) = length (harqs (cell_harq_repository_ctor isdl n w)) \<and>
        length (ues s) = length (ues (cell_harq_repository_ctor isdl n w))"
      by (rule run_ops_wf [OF ctor_wf _ repo]) simp
    moreover have "retx_within_budget s" by (rule run_ops_retx [OF ctor_retx repo])
    ultimately show ?thesis by simp
  next
    case mgr
    from run_mgr_inv [OF ctor_mgr_inv mgr(1)] mgr(2) show ?thesis
      by (auto simp: mgr_inv_def)
  qed
qed

lemma reachable_mgr:
  "run_mgr ys (cell_harq_manager_ctor n w t) = Some m \<Longrightarrow> reachable (dl m) \<and> reachable (ul m)"
  unfolding reachable_def by blast

lemma reachable_repo:
  "run_ops in_range xs (cell_harq_repository_ctor isdl n w) = Some s \<Longrightarrow> reachable s"
  unfolding reachable_def by blast

lemma wf_membership:
  assumes "repo_wf s" "i < length (harqs s)"
  shows "(i \<in> set (free_harqs s) \<longleftrightarrow> status (harqs s ! i) = empty_harq) \<and>
         (i \<in> set (concat (harq_timeout_wheel s)) \<longleftrightarrow> status (harqs s ! i) = waiting_ack) \<and>
         (i \<in> set (harq_pending_retx_list s) \<longleftrightarrow> status (harqs s ! i) = pending_retx)"
proof -
  from assms(1) have f: "wf_free s" by (simp add: repo_wf_def)
  from repo_wf_exclusive [OF assms(1)] assms(2)
  have c: "count_list (concat (harq_timeout_wheel s)) i =
          (if status (harqs s ! i) = waiting_ack then 1 else 0)"
    "count_list (harq_pending_retx_list s) i =
          (if status (harqs s ! i) = pending_retx then 1 else 0)"
    unfolding exclusive_membership_def by simp_all
  have "i \<in> set (concat (harq_timeout_wheel s)) \<longleftrightarrow> count_list (concat (harq_timeout_wheel s)) i \<noteq> 0"
    by (simp only: count_list_0_iff) simp
  moreover have "i \<in> set (harq_pending_retx_list s) \<longleftrightarrow> count_list (harq_pending_retx_list s) i \<noteq> 0"
    by (simp only: count_list_0_iff) simp
  ultimately show ?thesis
    using f assms(2) c unfolding wf_free_def by simp
qed

lemma handle_ack_release:
  assumes "repo_wf s" "i < length (harqs s)" "status (harqs s ! i) \<noteq> empty_harq"
    "a \<or> max_nof_harq_retxs (harqs s ! i) \<le> nof_retxs (harqs s ! i)"
  shows "handle_ack i a s = Inr (dealloc_harq i s) \<and>
     status (harqs (dealloc_harq i s) ! i) = empty_harq \<and>
     i \<in> set (free_harqs (dealloc_harq i s)) \<and>
     i \<notin> set (concat (harq_timeout_wheel (dealloc_harq i s))) \<and>
     i \<notin> set (harq_pending_retx_list (dealloc_harq i s))"
proof -
  have h: "handle_ack i a s = Inr (dealloc_harq i s)"
    using assms(4) by (auto simp: handle_ack_def Let_def)
  have w: "repo_wf (dealloc_harq i s)" using assms(1,2) by (rule dealloc_repo_wf)
  have st: "status (harqs (dealloc_harq i s) ! i) = empty_harq"
    using assms(2) by (simp add: dealloc_harqs_nth)
  from wf_membership [OF w, of i] assms(2) st h show ?thesis by simp
qed

lemma handle_ack_pending:
  assumes "repo_wf s" "i < length (harqs s)" "status (harqs s ! i) = waiting_ack"
    "\<not> a" "nof_retxs (harqs s ! i) < max_nof_harq_retxs (harqs s ! i)"
  shows "\<exists>s'. handle_ack i a s = Inr s' \<and>
     status (harqs s' ! i) = pending_retx \<and>
     i \<notin> set (free_harqs s') \<and>
     i \<notin> set (concat (harq_timeout_wheel s')) \<and>
     i \<in> set (harq_pending_retx_list s') \<and>
     nof_retxs (harqs s' ! i) = nof_retxs (harqs s ! i) \<and>
     max_nof_harq_retxs (harqs s' ! i) = max_nof_harq_retxs (harqs s ! i)"
proof -
  obtain s' where s': "set_pending_retx i s = Inr s'"
    and hq: "harqs s' = (harqs s)[i := (harqs s ! i)\<lparr>status := pending_retx\<rparr>]"
    using assms(3) by (simp add: set_pending_retx_cases)
  have h: "handle_ack i a s = Inr s'"
    using assms(4,5) s' by (simp add: handle_ack_def Let_def)
  have w: "repo_wf s'" by (rule set_pending_retx_wf [OF assms(1,2) s'])
  have i': "i < length (harqs s')" using assms(2) hq by simp
  have st: "status (harqs s' ! i) = pending_retx" using assms(2) hq by simp
  from wf_membership [OF w i'] st h hq assms(2) show ?thesis by simp
qed

subsection \<open>The timeout of the front record of a bucket\<close>

lemma slot_indication_idle:
  "harq_timeout_wheel s ! wheel_slot s t = [] \<Longrightarrow> slot_indication t s = Inr s"
  by (simp add: slot_indication_def)

lemma slot_indication_front:
  assumes "repo_wf s" "harq_timeout_wheel s ! wheel_slot s t = r # xs"
  shows "\<exists>s'. slot_indication t s = Inr s' \<and> repo_wf s' \<and>
     harqs s' = (harqs s)[r := (harqs s ! r)\<lparr>status := empty_harq\<rparr>] \<and>
     free_harqs s' = free_harqs s @ [r] \<and>
     harq_timeout_wheel s' = (harq_timeout_wheel s)[wheel_slot s t := xs] \<and>
     harq_pending_retx_list s' = harq_pending_retx_list s \<and>
     timeouts_notified s' = timeouts_notified s @
        (if max_ack_wait_in_slots s = 1 then [] else [timeout_report s r]) \<and>
     is_dl s' = is_dl s \<and> max_ack_wait_in_slots s' = max_ack_wait_in_slots s"
proof -
  have w: "wf_wheel s" using assms(1) by (simp add: repo_wf_def)
  note f = bucket_front [OF w assms(2)]
  define s1 where "s1 = (if max_ack_wait_in_slots s \<noteq> 1
      then s\<lparr>timeouts_notified := timeouts_notified s @ [timeout_report s r]\<rparr> else s)"
  define s2 where "s2 = dealloc_harq r s1"
  have h1: "harqs s1 = harqs s" "free_harqs s1 = free_harqs s" "is_dl s1 = is_dl s"
    "max_ack_wait_in_slots s1 = max_ack_wait_in_slots s" "harq_timeout_wheel s1 = harq_timeout_wheel s"
    "harq_pending_retx_list s1 = harq_pending_retx_list s"
    by (simp_all add: s1_def)
  have ws1: "wheel_slot s1 x = wheel_slot s x" for x by (simp add: wheel_slot_def h1)
  have st: "handle_harq_ack_timeout r t s = Inr s2"
    using f(2) by (simp add: handle_harq_ack_timeout_def Let_def s1_def s2_def timeout_report_def)
  then have si: "slot_indication t s = Inr s2" using assms(2) by (simp add: slot_indication_def)
  from timeout_handler_wf [OF assms(1) f(1,2), of t] st have w2: "repo_wf s2" by simp
  have n2: "timeouts_notified s2 = timeouts_notified s @
      (if max_ack_wait_in_slots s = 1 then [] else [timeout_report s r])"
    using f(2) by (simp add: s2_def s1_def dealloc_harq_def Let_def)
  have f2: "free_harqs s2 = free_harqs s @ [r]"
    using f(2) by (simp add: s2_def dealloc_harq_def Let_def h1)
  have c2: "is_dl s2 = is_dl s" "max_ack_wait_in_slots s2 = max_ack_wait_in_slots s"
    by (simp_all add: s2_def dealloc_harq_def Let_def h1)
  have q2: "harqs s2 = (harqs s)[r := (harqs s ! r)\<lparr>status := empty_harq\<rparr>]"
    using f(2) by (simp add: s2_def dealloc_harq_def Let_def h1)
  have p2: "harq_pending_retx_list s2 = harq_pending_retx_list s"
    using f(2) by (simp add: s2_def dealloc_harq_def Let_def h1)
  have "harq_timeout_wheel s2 =
      (harq_timeout_wheel s)[wheel_slot s (slot_ack_timeout (harqs s ! r)) :=
         pop r (harq_timeout_wheel s ! wheel_slot s (slot_ack_timeout (harqs s ! r)))]"
    using f(2) by (simp add: s2_def dealloc_harq_def Let_def h1 ws1)
  then have t2: "harq_timeout_wheel s2 = (harq_timeout_wheel s)[wheel_slot s t := xs]"
    unfolding f(3) assms(2) by (simp add: pop_def)
  from si w2 q2 f2 t2 p2 n2 c2 show ?thesis by blast
qed

lemma slot_indication_other:
  assumes "repo_wf s" "j < length (harqs s)" "j \<notin> set (harq_timeout_wheel s ! wheel_slot s t)"
    "slot_indication t s = Inr s'"
  shows "harqs s' ! j = harqs s ! j"
proof (cases "harq_timeout_wheel s ! wheel_slot s t")
  case Nil
  with assms(4) show ?thesis by (simp add: slot_indication_def)
next
  case (Cons r xs)
  with assms(3) have "j \<noteq> r" by auto
  with slot_indication_front [OF assms(1) Cons] assms(2,4) show ?thesis by auto
qed

lemma slot_indication_config:
  assumes "slot_indication t s = Inr s'"
  shows "is_dl s' = is_dl s \<and> max_ack_wait_in_slots s' = max_ack_wait_in_slots s"
proof (cases "harq_timeout_wheel s ! wheel_slot s t")
  case Nil
  with assms show ?thesis by (simp add: slot_indication_def)
next
  case (Cons r xs)
  with assms have "handle_harq_ack_timeout r t s = Inr s'" by (simp add: slot_indication_def)
  then show ?thesis
    by (auto simp: handle_harq_ack_timeout_def dealloc_harq_def Let_def split: if_splits)
qed

subsection \<open>Operations that leave a record alone\<close>

lemma destroy_loop_frame:
  "repo_wf s \<Longrightarrow> u < length (ues s) \<Longrightarrow> \<forall>k\<in>set ks. k < length (ue_harqs (ues s ! u)) \<Longrightarrow>
   j < length (harqs s) \<Longrightarrow> status (harqs s ! j) \<noteq> empty_harq \<Longrightarrow> ue_idx (harqs s ! j) \<noteq> u \<Longrightarrow>
   harqs (destroy_loop ks u s) ! j = harqs s ! j"
proof (induction ks arbitrary: s)
  case Nil
  then show ?case by simp
next
  case (Cons k ks)
  show ?case
  proof (cases "ue_harqs (ues s ! u) ! k")
    case None
    with Cons show ?thesis by simp
  next
    case (Some i)
    from Cons.prems have k: "k < length (ue_harqs (ues s ! u))" by simp
    from Cons.prems(1) have "wf_index s" by (simp add: repo_wf_def)
    with Cons.prems(2) k Some have i: "i < length (harqs s)" "ue_idx (harqs s ! i) = u"
      unfolding wf_index_def by blast+
    with Cons.prems(6) have ij: "i \<noteq> j" by auto
    let ?s1 = "dealloc_harq i s"
    have w1: "repo_wf ?s1" using Cons.prems(1) i(1) by (rule dealloc_repo_wf)
    have e: "harqs ?s1 ! j = harqs s ! j" using Cons.prems(4) ij by (simp add: dealloc_harqs_nth)
    have "harqs (destroy_loop ks u ?s1) ! j = harqs ?s1 ! j"
      using Cons.prems by (intro Cons.IH [OF w1]) (simp_all add: e)
    with Some e show ?thesis by simp
  qed
qed

lemma destroy_frame:
  assumes "repo_wf s" "u < length (ues s)" "j < length (harqs s)"
    "status (harqs s ! j) \<noteq> empty_harq" "ue_idx (harqs s ! j) \<noteq> u"
  shows "harqs (destroy_ue_harqs u s) ! j = harqs s ! j"
  using destroy_loop_frame [OF assms(1,2) _ assms(3,4,5), of "[0 ..< length (ue_harqs (ues s ! u))]"]
  by (simp add: destroy_ue_harqs_def Let_def)

lemma alloc_frame:
  assumes "wf_free s" "r < length (harqs s)" "status (harqs s ! r) \<noteq> empty_harq"
  shows "harqs (snd (alloc_harq u t1 t2 mx s)) ! r = harqs s ! r"
proof (cases "free_harqs s = [] \<or> free_harq_ids (ues s ! u) = []")
  case True
  then show ?thesis by (simp add: alloc_harq_fail)
next
  case False
  then have ne: "free_harqs s \<noteq> []" "free_harq_ids (ues s ! u) \<noteq> []" by simp_all
  from last_free_empty [OF assms(1) ne(1)] assms(3) have "last (free_harqs s) \<noteq> r" by auto
  with assms(2) show ?thesis by (simp add: alloc_harq_harqs [OF ne] nth_upd_if)
qed

lemma handle_ack_frame:
  assumes "i \<noteq> r" "r < length (harqs s)" "handle_ack i a s = Inr s'"
  shows "harqs s' ! r = harqs s ! r"
proof (cases "a \<or> max_nof_harq_retxs (harqs s ! i) \<le> nof_retxs (harqs s ! i)")
  case True
  with assms(3) have "s' = dealloc_harq i s" by (auto simp: handle_ack_def Let_def)
  with assms(1,2) show ?thesis by (simp add: dealloc_harqs_nth)
next
  case False
  with assms(3) have "set_pending_retx i s = Inr s'" by (auto simp: handle_ack_def Let_def)
  with assms(1,2) show ?thesis
    by (auto simp: set_pending_retx_cases nth_upd_if split: if_splits)
qed

lemma wheel_slot_RING: "wf_wheel s \<Longrightarrow> wheel_slot s t = t mod RING_SIZE"
  by (simp add: wheel_slot_def wf_wheel_def)

lemma slot_frame:
  assumes "repo_wf s" "r < length (harqs s)"
    "slot_ack_timeout (harqs s ! r) mod RING_SIZE \<noteq> t mod RING_SIZE"
    "slot_indication t s = Inr s'"
  shows "harqs s' ! r = harqs s ! r"
proof -
  from assms(1) have w: "wf_wheel s" by (simp add: repo_wf_def)
  have b: "wheel_slot s t < length (harq_timeout_wheel s)" by (rule wheel_slot_lt [OF w])
  from assms(3) have "wheel_slot s (slot_ack_timeout (harqs s ! r)) \<noteq> wheel_slot s t"
    by (simp add: wheel_slot_RING [OF w])
  with w b have "r \<notin> set (harq_timeout_wheel s ! wheel_slot s t)"
    unfolding wf_wheel_def by blast
  with assms(1,2) show ?thesis using assms(4) by (rule slot_indication_other)
qed

lemma cancel_frame:
  "r < length (harqs s) \<Longrightarrow>
   status (harqs (cancel_retxs i s) ! r) = status (harqs s ! r) \<and>
   ue_idx (harqs (cancel_retxs i s) ! r) = ue_idx (harqs s ! r) \<and>
   slot_ack_timeout (harqs (cancel_retxs i s) ! r) = slot_ack_timeout (harqs s ! r) \<and>
   ack_on_timeout (harqs (cancel_retxs i s) ! r) = ack_on_timeout (harqs s ! r)"
  by (cases "status (harqs s ! i) = empty_harq") (simp_all add: cancel_retxs_def Let_def nth_upd_if)

subsection \<open>The configuration is constant\<close>

lemma dealloc_config [simp]:
  "is_dl (dealloc_harq i s) = is_dl s"
  "max_ack_wait_in_slots (dealloc_harq i s) = max_ack_wait_in_slots s"
  by (simp_all add: dealloc_harq_def Let_def)

lemma destroy_loop_config:
  "is_dl (destroy_loop ks u s) = is_dl s \<and>
   max_ack_wait_in_slots (destroy_loop ks u s) = max_ack_wait_in_slots s"
  by (induction ks arbitrary: s) (auto split: option.splits)

lemma apply_op_config:
  assumes "apply_op x s = Inr s'"
  shows "is_dl s' = is_dl s \<and> max_ack_wait_in_slots s' = max_ack_wait_in_slots s"
proof (cases x)
  case (Reserve u n)
  with assms show ?thesis by (auto simp: reserve_ue_harqs_def)
next
  case (Alloc u t1 t2 mx)
  have "is_dl (snd (alloc_harq u t1 t2 mx s)) = is_dl s \<and>
      max_ack_wait_in_slots (snd (alloc_harq u t1 t2 mx s)) = max_ack_wait_in_slots s"
    by (cases "free_harqs s = [] \<or> free_harq_ids (ues s ! u) = []")
       (simp_all add: alloc_harq_def Let_def)
  with Alloc assms show ?thesis by auto
next
  case (HandleAck i a)
  with assms show ?thesis
    by (auto simp: handle_ack_def Let_def set_pending_retx_cases split: if_splits)
next
  case (Dealloc i)
  with assms show ?thesis by auto
next
  case (Destroy u)
  with assms destroy_loop_config [of "[0 ..< length (ue_harqs (ues s ! u))]" u s] show ?thesis
    by (auto simp: destroy_ue_harqs_def Let_def)
next
  case (SlotInd t)
  with assms show ?thesis by (auto dest: slot_indication_config)
next
  case (CancelRetxs i)
  have "is_dl (cancel_retxs i s) = is_dl s \<and>
      max_ack_wait_in_slots (cancel_retxs i s) = max_ack_wait_in_slots s"
    by (cases "status (harqs s ! i) = empty_harq") (simp_all add: cancel_retxs_def Let_def)
  with CancelRetxs assms show ?thesis by auto
qed

lemma run_ops_config:
  "run_ops ok xs s = Some s' \<Longrightarrow>
   is_dl s' = is_dl s \<and> max_ack_wait_in_slots s' = max_ack_wait_in_slots s"
proof (induction xs arbitrary: s)
  case Nil
  then show ?case by simp
next
  case (Cons x xs)
  from Cons.prems obtain s1 where s1: "apply_op x s = Inr s1" "run_ops ok xs s1 = Some s'"
    by (auto split: sum.splits if_splits)
  from apply_op_config [OF s1(1)] Cons.IH [OF s1(2)] show ?case by simp
qed

lemma alloc_harq_result:
  assumes "wf_free s" "alloc_harq ue t1 t2 mx s = (Some r, s1)"
  shows "r < length (harqs s)" and "status (harqs s ! r) = empty_harq"
    and "r = last (free_harqs s)" and "free_harqs s \<noteq> []"
    and "length (harqs s1) = length (harqs s)"
    and "harqs s1 ! r = (harqs s ! r)
        \<lparr>ue_idx := ue, h_id := last (free_harq_ids (ues s ! ue)), status := waiting_ack,
         slot_tx := t1, slot_ack := t2, nof_retxs := 0, ndi := \<not> ndi (harqs s ! r),
         max_nof_harq_retxs := mx, ack_on_timeout := False, retxs_cancelled := False,
         slot_ack_timeout := t2 + max_ack_wait_in_slots s\<rparr>"
    and "free_harqs s1 = butlast (free_harqs s)"
    and "is_dl s1 = is_dl s" and "max_ack_wait_in_slots s1 = max_ack_wait_in_slots s"
    and "timeouts_notified s1 = timeouts_notified s"
proof -
  from assms(2) have ne: "free_harqs s \<noteq> []" "free_harq_ids (ues s ! ue) \<noteq> []"
    by (auto simp: alloc_harq_def split: if_splits)
  from assms(2) ne have r: "r = last (free_harqs s)" and s1: "s1 = snd (alloc_harq ue t1 t2 mx s)"
    by (auto simp: alloc_harq_def Let_def)
  note l = last_free_empty [OF assms(1) ne(1)]
  show "free_harqs s1 = butlast (free_harqs s)" "is_dl s1 = is_dl s"
    "max_ack_wait_in_slots s1 = max_ack_wait_in_slots s" "timeouts_notified s1 = timeouts_notified s"
    using ne by (simp_all add: s1 alloc_harq_def Let_def)
  show "r < length (harqs s)" "status (harqs s ! r) = empty_harq" using l r by simp_all
  show "r = last (free_harqs s)" by (rule r)
  show "free_harqs s \<noteq> []" by (rule ne(1))
  show "length (harqs s1) = length (harqs s)" by (simp add: s1)
  show "harqs s1 ! r = (harqs s ! r)
        \<lparr>ue_idx := ue, h_id := last (free_harq_ids (ues s ! ue)), status := waiting_ack,
         slot_tx := t1, slot_ack := t2, nof_retxs := 0, ndi := \<not> ndi (harqs s ! r),
         max_nof_harq_retxs := mx, ack_on_timeout := False, retxs_cancelled := False,
         slot_ack_timeout := t2 + max_ack_wait_in_slots s\<rparr>"
    using l by (simp add: s1 r alloc_harq_harqs [OF ne])
qed

subsection \<open>The new-data indicator\<close>

lemma dealloc_ndi:
  "j < length (harqs s) \<Longrightarrow> ndi (harqs (dealloc_harq i s) ! j) = ndi (harqs s ! j)"
  by (simp add: dealloc_harqs_nth)

lemma destroy_loop_ndi:
  "j < length (harqs s) \<Longrightarrow>
   length (harqs (destroy_loop ks u s)) = length (harqs s) \<and>
   ndi (harqs (destroy_loop ks u s) ! j) = ndi (harqs s ! j)"
proof (induction ks arbitrary: s)
  case Nil
  then show ?case by simp
next
  case (Cons k ks)
  show ?case
  proof (cases "ue_harqs (ues s ! u) ! k")
    case None
    with Cons show ?thesis by simp
  next
    case (Some i)
    from Cons.prems have "j < length (harqs (dealloc_harq i s))" by simp
    from Cons.IH [OF this] Cons.prems Some show ?thesis by (simp add: dealloc_ndi)
  qed
qed

lemma destroy_ndi:
  "j < length (harqs s) \<Longrightarrow> ndi (harqs (destroy_ue_harqs u s) ! j) = ndi (harqs s ! j)"
  using destroy_loop_ndi [of j s "[0 ..< length (ue_harqs (ues s ! u))]" u]
  by (simp add: destroy_ue_harqs_def Let_def)

lemma alloc_ndi:
  assumes "fst (alloc_harq ue t1 t2 mx s) = Some r" "r < length (harqs s)"
  shows "r = last (free_harqs s) \<and>
     ndi (harqs (snd (alloc_harq ue t1 t2 mx s)) ! r) = (\<not> ndi (harqs s ! r)) \<and>
     (\<forall>j < length (harqs s). j \<noteq> r \<longrightarrow>
        harqs (snd (alloc_harq ue t1 t2 mx s)) ! j = harqs s ! j)"
proof -
  from assms(1) have ne: "free_harqs s \<noteq> []" "free_harq_ids (ues s ! ue) \<noteq> []"
    by (auto simp: alloc_harq_def split: if_splits)
  from assms(1) ne have r: "r = last (free_harqs s)"
    by (auto simp: alloc_harq_def Let_def)
  show ?thesis
    using assms(2) by (simp add: alloc_harq_harqs [OF ne] r)
qed

subsection \<open>The codebook merge\<close>









subsection \<open>The configuration of a manager is constant\<close>

lemma handle_ack_config:
  "handle_ack i a s = Inr s' \<Longrightarrow>
   is_dl s' = is_dl s \<and> max_ack_wait_in_slots s' = max_ack_wait_in_slots s"
  using apply_op_config [of "HandleAck i a" s s'] by simp

lemma alloc_config:
  "is_dl (snd (alloc_harq u t1 t2 mx s)) = is_dl s \<and>
   max_ack_wait_in_slots (snd (alloc_harq u t1 t2 mx s)) = max_ack_wait_in_slots s"
  using apply_op_config [of "Alloc u t1 t2 mx" s] by simp

lemma destroy_config:
  "is_dl (destroy_ue_harqs u s) = is_dl s \<and>
   max_ack_wait_in_slots (destroy_ue_harqs u s) = max_ack_wait_in_slots s"
  using apply_op_config [of "Destroy u" s] by simp

lemma cancel_config:
  "is_dl (cancel_retxs i s) = is_dl s \<and>
   max_ack_wait_in_slots (cancel_retxs i s) = max_ack_wait_in_slots s"
  using apply_op_config [of "CancelRetxs i" s] by simp

lemma new_dl_tx_config:
  "is_dl (dl (snd (new_dl_tx ue t k1 mx bidx m))) = is_dl (dl m) \<and>
   max_ack_wait_in_slots (dl (snd (new_dl_tx ue t k1 mx bidx m))) = max_ack_wait_in_slots (dl m) \<and>
   ul (snd (new_dl_tx ue t k1 mx bidx m)) = ul m"
proof (cases "alloc_harq ue t (t + k1) mx (dl m)")
  case (Pair r d)
  have d: "d = snd (alloc_harq ue t (t + k1) mx (dl m))" using Pair by simp
  have c: "is_dl d = is_dl (dl m)" "max_ack_wait_in_slots d = max_ack_wait_in_slots (dl m)"
    unfolding d using alloc_config [of ue t "t + k1" mx "dl m"] by simp_all
  from Pair c show ?thesis by (cases r) (simp_all add: new_dl_tx_def)
qed

lemma new_ul_tx_config:
  "is_dl (ul (snd (new_ul_tx ue t mx m))) = is_dl (ul m) \<and>
   max_ack_wait_in_slots (ul (snd (new_ul_tx ue t mx m))) = max_ack_wait_in_slots (ul m) \<and>
   dl (snd (new_ul_tx ue t mx m)) = dl m"
proof (cases "alloc_harq ue t t mx (ul m)")
  case (Pair r u)
  have u: "u = snd (alloc_harq ue t t mx (ul m))" using Pair by simp
  have c: "is_dl u = is_dl (ul m)" "max_ack_wait_in_slots u = max_ack_wait_in_slots (ul m)"
    unfolding u using alloc_config [of ue t t mx "ul m"] by simp_all
  from Pair c show ?thesis by (cases r) (simp_all add: new_ul_tx_def)
qed

lemma dl_ack_info_config:
  assumes "dl_ack_info i a snr m = Inr (res, m')"
  shows "is_dl (dl m') = is_dl (dl m) \<and>
     max_ack_wait_in_slots (dl m') = max_ack_wait_in_slots (dl m) \<and> ul m' = ul m"
proof (cases "status (harqs (dl m) ! i) = waiting_ack")
  case False
  with assms show ?thesis by (simp add: dl_ack_info_error)
next
  case True
  show ?thesis
  proof (cases "pucch_ack_to_receive (harqs (dl m) ! i) \<le> 1")
    case True
    from assms obtain d2 where d2: "handle_ack i (chosen_ack (merged (harqs (dl m) ! i) a snr) = ack)
             ((dl m)\<lparr>harqs := (harqs (dl m))[i := merged (harqs (dl m) ! i) a snr]\<rparr>) = Inr d2"
      and m': "m' = m\<lparr>dl := d2\<rparr>"
      unfolding dl_ack_info_final [OF \<open>status (harqs (dl m) ! i) = waiting_ack\<close> True]
      by (auto split: sum.splits)
    from handle_ack_config [OF d2] m' show ?thesis by simp
  next
    case False
    then have "1 < pucch_ack_to_receive (harqs (dl m) ! i)" by simp
    from assms [unfolded dl_ack_info_more [OF True this]] show ?thesis by auto
  qed
qed

lemma ul_crc_info_config:
  assumes "ul_crc_info i a m = Inr (res, m')"
  shows "is_dl (ul m') = is_dl (ul m) \<and>
     max_ack_wait_in_slots (ul m') = max_ack_wait_in_slots (ul m) \<and> dl m' = dl m"
proof (cases "status (harqs (ul m) ! i) = waiting_ack")
  case False
  with assms show ?thesis by (simp add: ul_crc_info_def Let_def)
next
  case True
  with assms obtain u where u: "handle_ack i a (ul m) = Inr u" and m': "m' = m\<lparr>ul := u\<rparr>"
    by (auto simp: ul_crc_info_def Let_def split: sum.splits)
  from handle_ack_config [OF u] m' show ?thesis by simp
qed

lemma apply_mgr_op_config:
  assumes "apply_mgr_op x m = Inr m'"
  shows "is_dl (dl m') = is_dl (dl m) \<and> is_dl (ul m') = is_dl (ul m) \<and>
     max_ack_wait_in_slots (dl m') = max_ack_wait_in_slots (dl m) \<and>
     max_ack_wait_in_slots (ul m') = max_ack_wait_in_slots (ul m)"
proof (cases x)
  case (AddUe ue ndl nul)
  with assms have "m' = m\<lparr>dl := reserve_ue_harqs ue ndl (dl m), ul := reserve_ue_harqs ue nul (ul m)\<rparr>"
    by (auto simp: add_ue_def split: if_splits)
  then show ?thesis by (simp add: reserve_ue_harqs_def)
next
  case (DestroyUe ue)
  with assms destroy_config [of ue "dl m"] destroy_config [of ue "ul m"] show ?thesis
    by (auto simp: destroy_ue_def)
next
  case (AllocDlHarq ue t k1 mx bidx)
  with assms have "m' = snd (new_dl_tx ue t k1 mx bidx m)" by (simp add: alloc_dl_harq_snd)
  with new_dl_tx_config [of ue t k1 mx bidx m] show ?thesis by simp
next
  case (AllocUlHarq ue t mx)
  with assms have "m' = snd (new_ul_tx ue t mx m)" by (simp add: alloc_ul_harq_snd)
  with new_ul_tx_config [of ue t mx m] show ?thesis by simp
next
  case (IncrementPucchCounter i)
  with assms show ?thesis by (auto simp: increment_pucch_counter_def)
next
  case (DlAckInfo i a snr)
  with assms obtain res where "dl_ack_info i a snr m = Inr (res, m')" by (auto split: sum.splits)
  from dl_ack_info_config [OF this] show ?thesis by simp
next
  case (UlCrcInfo i a)
  with assms obtain res where "ul_crc_info i a m = Inr (res, m')" by (auto split: sum.splits)
  from ul_crc_info_config [OF this] show ?thesis by simp
next
  case (CancelHarqRetxs d i)
  with assms cancel_config [of i "dl m"] cancel_config [of i "ul m"] show ?thesis
    by (cases d) auto
next
  case (SlotIndication t)
  with assms obtain d u where d: "slot_indication t (dl m) = Inr d"
    and u: "slot_indication t (ul m) = Inr u" and m': "m' = m\<lparr>last_sl_tx := t, dl := d, ul := u\<rparr>"
    by (auto simp: mgr_slot_indication_def split: sum.splits)
  from slot_indication_config [OF d] slot_indication_config [OF u] m' show ?thesis by simp
qed

lemma run_mgr_config:
  "run_mgr xs m = Some m' \<Longrightarrow>
   is_dl (dl m') = is_dl (dl m) \<and> is_dl (ul m') = is_dl (ul m) \<and>
   max_ack_wait_in_slots (dl m') = max_ack_wait_in_slots (dl m) \<and>
   max_ack_wait_in_slots (ul m') = max_ack_wait_in_slots (ul m)"
proof (induction xs arbitrary: m)
  case Nil
  then show ?case by simp
next
  case (Cons x xs)
  from Cons.prems obtain m1 where m1: "apply_mgr_op x m = Inr m1" "run_mgr xs m1 = Some m'"
    by (auto split: sum.splits if_splits)
  from apply_mgr_op_config [OF m1(1)] Cons.IH [OF m1(2)] show ?case by simp
qed

lemma ctor_config:
  "is_dl (repo_of d (cell_harq_manager_ctor n w t0)) = d \<and>
   max_ack_wait_in_slots (repo_of d (cell_harq_manager_ctor n w t0)) = w \<and>
   length (ues (repo_of d (cell_harq_manager_ctor n w t0))) = n"
  by (simp add: repo_of_def cell_harq_manager_ctor_def cell_harq_repository_ctor_def)

lemma reached_config:
  assumes "run_mgr ys (cell_harq_manager_ctor n w t0) = Some m"
  shows "is_dl (repo_of d m) = d" and "max_ack_wait_in_slots (repo_of d m) = w"
  using run_mgr_config [OF assms] ctor_config [of True n w t0] ctor_config [of False n w t0]
  by (simp_all add: repo_of_def)

subsection \<open>Manager operations that leave a waiting record alone\<close>

lemma waits_for_nth:
  "waits_for q r ue dline \<Longrightarrow> length (harqs q') = length (harqs q) \<Longrightarrow>
   harqs q' ! r = harqs q ! r \<Longrightarrow> waits_for q' r ue dline"
  by (simp add: waits_for_def)

lemma waits_for_fields:
  "waits_for q r ue dline \<Longrightarrow> length (harqs q') = length (harqs q) \<Longrightarrow>
   status (harqs q' ! r) = status (harqs q ! r) \<Longrightarrow>
   ue_idx (harqs q' ! r) = ue_idx (harqs q ! r) \<Longrightarrow>
   slot_ack_timeout (harqs q' ! r) = slot_ack_timeout (harqs q ! r) \<Longrightarrow>
   ack_on_timeout (harqs q' ! r) = ack_on_timeout (harqs q ! r) \<Longrightarrow>
   waits_for q' r ue dline"
  by (simp add: waits_for_def)

lemma reserve_keeps:
  "waits_for q r ue dline \<Longrightarrow> waits_for (reserve_ue_harqs u n q) r ue dline"
  by (simp add: waits_for_def reserve_ue_harqs_def)

lemma destroy_keeps:
  assumes "repo_wf q" "u < length (ues q)" "u \<noteq> ue" "waits_for q r ue dline"
  shows "waits_for (destroy_ue_harqs u q) r ue dline"
proof -
  from assms(4) have r: "r < length (harqs q)" "status (harqs q ! r) \<noteq> empty_harq"
    "ue_idx (harqs q ! r) \<noteq> u"
    using assms(3) by (auto simp: waits_for_def)
  from destroy_frame [OF assms(1,2) r] destroy_lengths [OF assms(1,2)]
  show ?thesis by (auto intro: waits_for_nth [OF assms(4)])
qed

lemma cancel_keeps:
  assumes "waits_for q r ue dline"
  shows "waits_for (cancel_retxs i q) r ue dline"
proof -
  from assms have r: "r < length (harqs q)" by (simp add: waits_for_def)
  from cancel_frame [OF r, of i] assms show ?thesis
    by (intro waits_for_fields [OF assms]) simp_all
qed

lemma slot_keeps:
  assumes "repo_wf q" "waits_for q r ue dline" "t mod RING_SIZE \<noteq> dline mod RING_SIZE"
    "slot_indication t q = Inr q'"
  shows "waits_for q' r ue dline"
proof -
  from assms(2) have r: "r < length (harqs q)" "slot_ack_timeout (harqs q ! r) = dline"
    by (simp_all add: waits_for_def)
  from assms(3) r(2) have "slot_ack_timeout (harqs q ! r) mod RING_SIZE \<noteq> t mod RING_SIZE"
    by simp
  from slot_frame [OF assms(1) r(1) this assms(4)] slot_indication_wf [OF assms(1), of t] assms(4)
  show ?thesis by (auto intro: waits_for_nth [OF assms(2)])
qed

lemma handle_ack_keeps:
  assumes "i \<noteq> r" "waits_for q r ue dline" "handle_ack i a q = Inr q'"
  shows "waits_for q' r ue dline"
proof -
  from assms(2) have r: "r < length (harqs q)" by (simp add: waits_for_def)
  from handle_ack_frame [OF assms(1) r assms(3)] handle_ack_lengths [OF assms(3)]
  show ?thesis by (auto intro: waits_for_nth [OF assms(2)])
qed

lemma alloc_keeps:
  assumes "wf_free q" "waits_for q r ue dline"
  shows "waits_for (snd (alloc_harq u t1 t2 mx q)) r ue dline"
proof -
  from assms(2) have r: "r < length (harqs q)" "status (harqs q ! r) \<noteq> empty_harq"
    by (simp_all add: waits_for_def)
  from alloc_frame [OF assms(1) r] show ?thesis
    by (auto intro: waits_for_nth [OF assms(2)])
qed

lemma alloc_not_waiting:
  assumes "wf_free q" "waits_for q r ue dline" "alloc_harq u t1 t2 mx q = (Some i, q')"
  shows "i \<noteq> r"
proof -
  from alloc_harq_result(2) [OF assms(1,3)] assms(2) show ?thesis
    by (auto simp: waits_for_def)
qed

lemma new_dl_tx_keeps:
  assumes "repo_wf (dl m)" "waits_for (dl m) r ue dline"
  shows "waits_for (dl (snd (new_dl_tx u t k1 mx bidx m))) r ue dline"
proof (cases "alloc_harq u t (t + k1) mx (dl m)")
  case (Pair res q)
  have wf: "wf_free (dl m)" using assms(1) by (simp add: repo_wf_def)
  have q: "q = snd (alloc_harq u t (t + k1) mx (dl m))" using Pair by simp
  have k: "waits_for q r ue dline" unfolding q using wf assms(2) by (rule alloc_keeps)
  show ?thesis
  proof (cases res)
    case None
    with Pair assms(2) show ?thesis by (simp add: new_dl_tx_def)
  next
    case (Some i)
    with Pair have "alloc_harq u t (t + k1) mx (dl m) = (Some i, q)" by simp
    from alloc_not_waiting [OF wf assms(2) this] have ir: "i \<noteq> r" .
    from k have r: "r < length (harqs q)" by (simp add: waits_for_def)
    have "waits_for (q\<lparr>harqs := (harqs q)[i := (harqs q ! i)
                \<lparr>tbs_bytes := 0, harq_bit_idx := bidx mod 256, pucch_ack_to_receive := 0,
                 chosen_ack := dtx, last_pucch_snr := None\<rparr>]\<rparr>) r ue dline"
      using ir r by (intro waits_for_nth [OF k]) (simp_all add: nth_upd_if)
    with Pair Some show ?thesis by (simp add: new_dl_tx_def)
  qed
qed

lemma new_ul_tx_keeps:
  assumes "repo_wf (ul m)" "waits_for (ul m) r ue dline"
  shows "waits_for (ul (snd (new_ul_tx u t mx m))) r ue dline"
proof (cases "alloc_harq u t t mx (ul m)")
  case (Pair res q)
  have wf: "wf_free (ul m)" using assms(1) by (simp add: repo_wf_def)
  have q: "q = snd (alloc_harq u t t mx (ul m))" using Pair by simp
  have k: "waits_for q r ue dline" unfolding q using wf assms(2) by (rule alloc_keeps)
  show ?thesis
  proof (cases res)
    case None
    with Pair assms(2) show ?thesis by (simp add: new_ul_tx_def)
  next
    case (Some i)
    with Pair have "alloc_harq u t t mx (ul m) = (Some i, q)" by simp
    from alloc_not_waiting [OF wf assms(2) this] have ir: "i \<noteq> r" .
    from k have r: "r < length (harqs q)" by (simp add: waits_for_def)
    have "waits_for (q\<lparr>harqs := (harqs q)[i := (harqs q ! i)\<lparr>tbs_bytes := 0\<rparr>]\<rparr>) r ue dline"
      using ir r by (intro waits_for_nth [OF k]) (simp_all add: nth_upd_if)
    with Pair Some show ?thesis by (simp add: new_ul_tx_def)
  qed
qed

lemma increment_keeps:
  assumes "waits_for (dl m) r ue dline"
  shows "waits_for (dl (increment_pucch_counter i m)) r ue dline"
proof -
  from assms have r: "r < length (harqs (dl m))" by (simp add: waits_for_def)
  then show ?thesis
    by (intro waits_for_fields [OF assms]) (simp_all add: increment_pucch_counter_def nth_upd_if)
qed

lemma dl_ack_info_keeps:
  assumes "i \<noteq> r" "waits_for (dl m) r ue dline" "dl_ack_info i a snr m = Inr (res, m')"
  shows "waits_for (dl m') r ue dline"
proof (cases "status (harqs (dl m) ! i) = waiting_ack")
  case False
  with assms show ?thesis by (simp add: dl_ack_info_error)
next
  case True
  from assms(2) have r: "r < length (harqs (dl m))" by (simp add: waits_for_def)
  show ?thesis
  proof (cases "pucch_ack_to_receive (harqs (dl m) ! i) \<le> 1")
    case True
    define d1 where "d1 = (dl m)\<lparr>harqs := (harqs (dl m))[i := merged (harqs (dl m) ! i) a snr]\<rparr>"
    from assms(3) obtain d2 where
      d2: "handle_ack i (chosen_ack (merged (harqs (dl m) ! i) a snr) = ack) d1 = Inr d2"
      and m': "m' = m\<lparr>dl := d2\<rparr>"
      unfolding dl_ack_info_final [OF \<open>status (harqs (dl m) ! i) = waiting_ack\<close> True] d1_def
      by (auto split: sum.splits)
    have "waits_for d1 r ue dline"
      using assms(1) r by (intro waits_for_nth [OF assms(2)]) (simp_all add: d1_def nth_upd_if)
    from handle_ack_keeps [OF assms(1) this d2] m' show ?thesis by simp
  next
    case False
    then have "1 < pucch_ack_to_receive (harqs (dl m) ! i)" by simp
    from assms(3) [unfolded dl_ack_info_more [OF True this]]
    have "harqs (dl m') = (harqs (dl m))[i := (merged (harqs (dl m) ! i) a snr)
                \<lparr>pucch_ack_to_receive := pucch_ack_to_receive (harqs (dl m) ! i) - 1,
                 ack_on_timeout := (chosen_ack (merged (harqs (dl m) ! i) a snr) = ack),
                 slot_ack_timeout := last_sl_tx m + short_ack_timeout_dtx m\<rparr>]"
      by auto
    with assms(1) r show ?thesis
      by (intro waits_for_nth [OF assms(2)]) (simp_all add: nth_upd_if)
  qed
qed

lemma ul_crc_info_keeps:
  assumes "i \<noteq> r" "waits_for (ul m) r ue dline" "ul_crc_info i a m = Inr (res, m')"
  shows "waits_for (ul m') r ue dline"
proof (cases "status (harqs (ul m) ! i) = waiting_ack")
  case False
  with assms show ?thesis by (simp add: ul_crc_info_def Let_def)
next
  case True
  with assms(3) obtain u where u: "handle_ack i a (ul m) = Inr u" and m': "m' = m\<lparr>ul := u\<rparr>"
    by (auto simp: ul_crc_info_def Let_def split: sum.splits)
  from handle_ack_keeps [OF assms(1,2) u] m' show ?thesis by simp
qed

lemma apply_mgr_op_keeps:
  assumes "mgr_inv m" "mgr_in_range m x" "apply_mgr_op x m = Inr m'"
    "leaves_waiting d r ue dline x" "waits_for (repo_of d m) r ue dline"
  shows "waits_for (repo_of d m') r ue dline"
proof -
  have wd: "repo_wf (dl m)" and wu: "repo_wf (ul m)"
    using assms(1) by (simp_all add: mgr_inv_def)
  show ?thesis
  proof (cases x)
    case (AddUe u ndl nul)
    with assms(3) have "m' = m\<lparr>dl := reserve_ue_harqs u ndl (dl m), ul := reserve_ue_harqs u nul (ul m)\<rparr>"
      by (auto simp: add_ue_def split: if_splits)
    with assms(5) show ?thesis by (cases d) (simp_all add: repo_of_def reserve_keeps)
  next
    case (DestroyUe u)
    with assms(2,4) have u: "u < length (ues (dl m))" "u < length (ues (ul m))" "u \<noteq> ue" by simp_all
    from DestroyUe assms(3) have m': "m' = destroy_ue u m" by simp
    show ?thesis
    proof (cases d)
      case True
      with assms(5) have "waits_for (dl m) r ue dline" by (simp add: repo_of_def)
      from destroy_keeps [OF wd u(1,3) this] True show ?thesis
        by (simp add: m' repo_of_def destroy_ue_def)
    next
      case False
      with assms(5) have "waits_for (ul m) r ue dline" by (simp add: repo_of_def)
      from destroy_keeps [OF wu u(2,3) this] False show ?thesis
        by (simp add: m' repo_of_def destroy_ue_def)
    qed
  next
    case (AllocDlHarq u t k1 mx bidx)
    with assms(3) have m': "m' = snd (new_dl_tx u t k1 mx bidx m)" by (simp add: alloc_dl_harq_snd)
    show ?thesis
    proof (cases d)
      case True
      with assms(5) have "waits_for (dl m) r ue dline" by (simp add: repo_of_def)
      from new_dl_tx_keeps [OF wd this] True show ?thesis by (simp add: m' repo_of_def)
    next
      case False
      with assms(5) new_dl_tx_config [of u t k1 mx bidx m] show ?thesis
        by (simp add: m' repo_of_def)
    qed
  next
    case (AllocUlHarq u t mx)
    with assms(3) have m': "m' = snd (new_ul_tx u t mx m)" by (simp add: alloc_ul_harq_snd)
    show ?thesis
    proof (cases d)
      case True
      with assms(5) new_ul_tx_config [of u t mx m] show ?thesis
        by (simp add: m' repo_of_def)
    next
      case False
      with assms(5) have "waits_for (ul m) r ue dline" by (simp add: repo_of_def)
      from new_ul_tx_keeps [OF wu this] False show ?thesis by (simp add: m' repo_of_def)
    qed
  next
    case (IncrementPucchCounter i)
    with assms(3) have m': "m' = increment_pucch_counter i m" by simp
    show ?thesis
    proof (cases d)
      case True
      with assms(5) have "waits_for (dl m) r ue dline" by (simp add: repo_of_def)
      from increment_keeps [OF this] True show ?thesis by (simp add: m' repo_of_def)
    next
      case False
      with assms(5) show ?thesis by (simp add: m' repo_of_def increment_pucch_counter_def)
    qed
  next
    case (DlAckInfo i a snr)
    with assms(3) obtain res where res: "dl_ack_info i a snr m = Inr (res, m')"
      by (auto split: sum.splits)
    show ?thesis
    proof (cases d)
      case True
      with assms(4,5) DlAckInfo have "i \<noteq> r" "waits_for (dl m) r ue dline"
        by (simp_all add: repo_of_def)
      from dl_ack_info_keeps [OF this res] True show ?thesis by (simp add: repo_of_def)
    next
      case False
      with assms(5) dl_ack_info_config [OF res] show ?thesis by (simp add: repo_of_def)
    qed
  next
    case (UlCrcInfo i a)
    with assms(3) obtain res where res: "ul_crc_info i a m = Inr (res, m')"
      by (auto split: sum.splits)
    show ?thesis
    proof (cases d)
      case True
      with assms(5) ul_crc_info_config [OF res] show ?thesis by (simp add: repo_of_def)
    next
      case False
      with assms(4,5) UlCrcInfo have "i \<noteq> r" "waits_for (ul m) r ue dline"
        by (simp_all add: repo_of_def)
      from ul_crc_info_keeps [OF this res] False show ?thesis by (simp add: repo_of_def)
    qed
  next
    case (CancelHarqRetxs dd i)
    with assms(3) have m': "m' = (if dd then m\<lparr>dl := cancel_retxs i (dl m)\<rparr>
        else m\<lparr>ul := cancel_retxs i (ul m)\<rparr>)"
      by simp
    from assms(5) show ?thesis
      by (cases d; cases dd) (simp_all add: m' repo_of_def cancel_keeps)
  next
    case (SlotIndication t)
    with assms(3) obtain q u where q: "slot_indication t (dl m) = Inr q"
      and u: "slot_indication t (ul m) = Inr u" and m': "m' = m\<lparr>last_sl_tx := t, dl := q, ul := u\<rparr>"
      by (auto simp: mgr_slot_indication_def split: sum.splits)
    from SlotIndication assms(4) have t: "t mod RING_SIZE \<noteq> dline mod RING_SIZE" by simp
    show ?thesis
    proof (cases d)
      case True
      with assms(5) have "waits_for (dl m) r ue dline" by (simp add: repo_of_def)
      from slot_keeps [OF wd this t q] True show ?thesis by (simp add: m' repo_of_def)
    next
      case False
      with assms(5) have "waits_for (ul m) r ue dline" by (simp add: repo_of_def)
      from slot_keeps [OF wu this t u] False show ?thesis by (simp add: m' repo_of_def)
    qed
  qed
qed

lemma run_mgr_keeps:
  "mgr_inv m \<Longrightarrow> run_mgr xs m = Some m' \<Longrightarrow> list_all (leaves_waiting d r ue dline) xs \<Longrightarrow>
   waits_for (repo_of d m) r ue dline \<Longrightarrow>
   mgr_inv m' \<and> waits_for (repo_of d m') r ue dline"
proof (induction xs arbitrary: m)
  case Nil
  then show ?case by simp
next
  case (Cons x xs)
  from Cons.prems(2) have ok: "mgr_in_range m x" by (simp split: if_splits)
  from Cons.prems(2) ok obtain m1 where m1: "apply_mgr_op x m = Inr m1" "run_mgr xs m1 = Some m'"
    by (auto split: sum.splits)
  from Cons.prems(3) have l: "leaves_waiting d r ue dline x" "list_all (leaves_waiting d r ue dline) xs"
    by simp_all
  from apply_mgr_op_inv [OF Cons.prems(1) ok m1(1)] have i1: "mgr_inv m1" by simp
  from apply_mgr_op_keeps [OF Cons.prems(1) ok m1(1) l(1) Cons.prems(4)]
  have k1: "waits_for (repo_of d m1) r ue dline" .
  from Cons.IH [OF i1 m1(2) l(2) k1] show ?case .
qed

subsection \<open>A fresh allocation and the timeout of the front record\<close>

lemma alloc_harq_wheel:
  assumes "wf_wheel s" "alloc_harq ue t1 t2 mx s = (Some r, s1)"
  shows "harq_timeout_wheel s1 ! ((t2 + max_ack_wait_in_slots s) mod RING_SIZE) =
     r # harq_timeout_wheel s ! ((t2 + max_ack_wait_in_slots s) mod RING_SIZE)"
proof -
  from assms(2) have ne: "free_harqs s \<noteq> []" "free_harq_ids (ues s ! ue) \<noteq> []"
    by (auto simp: alloc_harq_def split: if_splits)
  from assms(2) ne have r: "r = last (free_harqs s)" and s1: "s1 = snd (alloc_harq ue t1 t2 mx s)"
    by (auto simp: alloc_harq_def Let_def)
  have b: "wheel_slot s (t2 + max_ack_wait_in_slots s) < length (harq_timeout_wheel s)"
    by (rule wheel_slot_lt [OF assms(1)])
  have e: "wheel_slot s (t2 + max_ack_wait_in_slots s) = (t2 + max_ack_wait_in_slots s) mod RING_SIZE"
    by (rule wheel_slot_RING [OF assms(1)])
  have "harq_timeout_wheel s1 =
      (harq_timeout_wheel s)[wheel_slot s (t2 + max_ack_wait_in_slots s) :=
         r # harq_timeout_wheel s ! wheel_slot s (t2 + max_ack_wait_in_slots s)]"
    using ne by (simp add: s1 r alloc_harq_def Let_def push_front_def)
  with b show ?thesis unfolding e by simp
qed

lemma alloc_harq_waits:
  assumes "repo_wf s" "alloc_harq ue t1 t2 mx s = (Some r, s1)"
  shows "waits_for s1 r ue (t2 + max_ack_wait_in_slots s)"
    and "hd (harq_timeout_wheel s1 ! ((t2 + max_ack_wait_in_slots s) mod RING_SIZE)) = r"
    and "length (free_harqs s1) + 1 = length (free_harqs s)"
proof -
  from assms(1) have f: "wf_free s" and w: "wf_wheel s" by (simp_all add: repo_wf_def)
  note a = alloc_harq_result [OF f assms(2)]
  from a(1,5,6) show "waits_for s1 r ue (t2 + max_ack_wait_in_slots s)"
    by (simp add: waits_for_def)
  from alloc_harq_wheel [OF w assms(2)]
  show "hd (harq_timeout_wheel s1 ! ((t2 + max_ack_wait_in_slots s) mod RING_SIZE)) = r" by simp
  from a(4,7) show "length (free_harqs s1) + 1 = length (free_harqs s)" by simp
qed

lemma alloc_dl_harq_waits:
  assumes "repo_wf (dl m)" "alloc_dl_harq ue t k1 mx bidx m = (Some r, m1)"
  shows "waits_for (dl m1) r ue (t + k1 + max_ack_wait_in_slots (dl m))"
    and "hd (harq_timeout_wheel (dl m1) ! ((t + k1 + max_ack_wait_in_slots (dl m)) mod RING_SIZE)) = r"
    and "length (free_harqs (dl m1)) + 1 = length (free_harqs (dl m))"
    and "m1 = snd (new_dl_tx ue t k1 mx bidx m)"
proof -
  from assms(2) have m1: "m1 = snd (new_dl_tx ue t k1 mx bidx m)"
    using alloc_dl_harq_snd [of ue t k1 mx bidx m] by simp
  obtain res q where a: "alloc_harq ue t (t + k1) mx (dl m) = (res, q)" by force
  from assms(2) a have res: "res = Some r"
    by (cases res) (auto simp: alloc_dl_harq_def new_dl_tx_def)
  note b = alloc_harq_waits [OF assms(1) a [unfolded res]]
  from b(1) have r: "r < length (harqs q)" by (simp add: waits_for_def)
  from a res have d1: "dl m1 = q\<lparr>harqs := (harqs q)[r := (harqs q ! r)
                \<lparr>tbs_bytes := 0, harq_bit_idx := bidx mod 256, pucch_ack_to_receive := 0,
                 chosen_ack := dtx, last_pucch_snr := None\<rparr>]\<rparr>"
    by (simp add: m1 new_dl_tx_def)
  show "waits_for (dl m1) r ue (t + k1 + max_ack_wait_in_slots (dl m))"
    using r unfolding d1 by (intro waits_for_fields [OF b(1)]) simp_all
  show "hd (harq_timeout_wheel (dl m1) ! ((t + k1 + max_ack_wait_in_slots (dl m)) mod RING_SIZE)) = r"
    using b(2) by (simp add: d1)
  show "length (free_harqs (dl m1)) + 1 = length (free_harqs (dl m))"
    using b(3) by (simp add: d1)
  show "m1 = snd (new_dl_tx ue t k1 mx bidx m)" by (rule m1)
qed

lemma alloc_ul_harq_waits:
  assumes "repo_wf (ul m)" "alloc_ul_harq ue t mx m = (Some r, m1)"
  shows "waits_for (ul m1) r ue (t + max_ack_wait_in_slots (ul m))"
    and "hd (harq_timeout_wheel (ul m1) ! ((t + max_ack_wait_in_slots (ul m)) mod RING_SIZE)) = r"
    and "length (free_harqs (ul m1)) + 1 = length (free_harqs (ul m))"
    and "m1 = snd (new_ul_tx ue t mx m)"
proof -
  from assms(2) have m1: "m1 = snd (new_ul_tx ue t mx m)"
    using alloc_ul_harq_snd [of ue t mx m] by simp
  obtain res q where a: "alloc_harq ue t t mx (ul m) = (res, q)" by force
  from assms(2) a have res: "res = Some r"
    by (cases res) (auto simp: alloc_ul_harq_def new_ul_tx_def)
  note b = alloc_harq_waits [OF assms(1) a [unfolded res]]
  from b(1) have r: "r < length (harqs q)" by (simp add: waits_for_def)
  from a res have d1: "ul m1 = q\<lparr>harqs := (harqs q)[r := (harqs q ! r)\<lparr>tbs_bytes := 0\<rparr>]\<rparr>"
    by (simp add: m1 new_ul_tx_def)
  show "waits_for (ul m1) r ue (t + max_ack_wait_in_slots (ul m))"
    using r unfolding d1 by (intro waits_for_fields [OF b(1)]) simp_all
  show "hd (harq_timeout_wheel (ul m1) ! ((t + max_ack_wait_in_slots (ul m)) mod RING_SIZE)) = r"
    using b(2) by (simp add: d1)
  show "length (free_harqs (ul m1)) + 1 = length (free_harqs (ul m))"
    using b(3) by (simp add: d1)
  show "m1 = snd (new_ul_tx ue t mx m)" by (rule m1)
qed

lemma front_timeout:
  assumes "repo_wf q" "waits_for q r ue dline" "t mod RING_SIZE = dline mod RING_SIZE"
    "hd (harq_timeout_wheel q ! (t mod RING_SIZE)) = r"
  shows "count_list (harq_timeout_wheel q ! (t mod RING_SIZE)) r = 1"
    and "\<exists>q'. slot_indication t q = Inr q' \<and> repo_wf q' \<and>
       status (harqs q' ! r) = empty_harq \<and>
       free_harqs q' = free_harqs q @ [r] \<and>
       r \<notin> set (concat (harq_timeout_wheel q')) \<and>
       timeouts_notified q' = timeouts_notified q @
         (if max_ack_wait_in_slots q = 1 then [] else [(ue, is_dl q, False)])"
proof -
  from assms(1) have w: "wf_wheel q" by (simp add: repo_wf_def)
  from assms(2) have r: "r < length (harqs q)" "status (harqs q ! r) = waiting_ack"
    "ue_idx (harqs q ! r) = ue" "slot_ack_timeout (harqs q ! r) = dline"
    "\<not> ack_on_timeout (harqs q ! r)"
    by (simp_all add: waits_for_def)
  have e: "wheel_slot q t = t mod RING_SIZE" by (rule wheel_slot_RING [OF w])
  have bt: "wheel_slot q t < length (harq_timeout_wheel q)" by (rule wheel_slot_lt [OF w])
  have "wheel_slot q (slot_ack_timeout (harqs q ! r)) = wheel_slot q t"
    using assms(3) r(4) by (simp add: wheel_slot_RING [OF w])
  with w bt r(1,2) have cnt: "count_list (harq_timeout_wheel q ! wheel_slot q t) r = 1"
    unfolding wf_wheel_count by simp
  then show "count_list (harq_timeout_wheel q ! (t mod RING_SIZE)) r = 1" unfolding e .
  from cnt have "harq_timeout_wheel q ! wheel_slot q t \<noteq> []" by auto
  with assms(4) obtain xs where b: "harq_timeout_wheel q ! wheel_slot q t = r # xs"
    unfolding e by (cases "harq_timeout_wheel q ! (t mod RING_SIZE)") auto
  from slot_indication_front [OF assms(1) b] obtain q' where q': "slot_indication t q = Inr q'"
    "repo_wf q'" "harqs q' = (harqs q)[r := (harqs q ! r)\<lparr>status := empty_harq\<rparr>]"
    "free_harqs q' = free_harqs q @ [r]"
    "timeouts_notified q' = timeouts_notified q @
        (if max_ack_wait_in_slots q = 1 then [] else [timeout_report q r])"
    by blast
  have st: "status (harqs q' ! r) = empty_harq" using r(1) by (simp add: q'(3))
  have r': "r < length (harqs q')" using r(1) by (simp add: q'(3))
  from wf_membership [OF q'(2) r'] st have nw: "r \<notin> set (concat (harq_timeout_wheel q'))" by simp
  have rep: "timeout_report q r = (ue, is_dl q, False)"
    using r(3,5) by (simp add: timeout_report_def)
  from q'(1,2) st q'(4) nw q'(5) rep
  show "\<exists>q'. slot_indication t q = Inr q' \<and> repo_wf q' \<and>
       status (harqs q' ! r) = empty_harq \<and>
       free_harqs q' = free_harqs q @ [r] \<and>
       r \<notin> set (concat (harq_timeout_wheel q')) \<and>
       timeouts_notified q' = timeouts_notified q @
         (if max_ack_wait_in_slots q = 1 then [] else [(ue, is_dl q, False)])"
    by auto
qed

section \<open>Allocation failure and protocol violations\<close>

text \<open>
  C6. A report for a record that is not waiting for an acknowledgment: \<^verbatim>\<open>dl_ack_info\<close>
  returns \<open>error\<close> and \<^verbatim>\<open>ul_crc_info\<close> returns \<open>-1\<close>, and the manager state
  (both repositories, hence the record) is the one before the call.
\<close>

theorem protocol_violation_atomicity:
  "(status (harqs (dl m) ! i) \<noteq> waiting_ack \<longrightarrow> dl_ack_info i a snr m = Inr (error, m)) \<and>
   (status (harqs (ul m) ! j) \<noteq> waiting_ack \<longrightarrow> ul_crc_info j c m = Inr (- 1, m))"
  by (simp add: dl_ack_info_def ul_crc_info_def Let_def)

text \<open>
  The witness: a duplicate report for the downlink process of \<open>mgr3\<close>, already
  acknowledged, and a CRC for an uplink process that was never allocated.
\<close>

theorem protocol_violation_atomicity_witness:
  "status (harqs (dl mgr2) ! 0) = waiting_ack \<and>
   status (harqs (dl mgr3) ! 0) \<noteq> waiting_ack \<and>
   dl_ack_info 0 nack (Some 3) mgr3 = Inr (error, mgr3) \<and>
   status (harqs (ul mgr3) ! 0) \<noteq> waiting_ack \<and>
   ul_crc_info 0 True mgr3 = Inr (- 1, mgr3)"
proof -
  have a: "status (harqs (dl mgr2) ! 0) = waiting_ack" by code_simp
  have b: "status (harqs (dl mgr3) ! 0) \<noteq> waiting_ack" by code_simp
  have c: "status (harqs (ul mgr3) ! 0) \<noteq> waiting_ack" by code_simp
  from protocol_violation_atomicity [of mgr3 0 nack "Some 3" 0 True] a b c
  show ?thesis by simp
qed

text \<open>
  C8. \<^verbatim>\<open>alloc_harq\<close> returns no record exactly when the terminal's free process ids or
  the global free list are empty, and then the repository is unchanged; the same holds
  for the handle's \<^verbatim>\<open>alloc_dl_harq\<close> and \<^verbatim>\<open>alloc_ul_harq\<close>. No assertion is on
  these paths: the functions return a pair, never an \<open>assertion\<close>.
\<close>

theorem alloc_failure_on_exhaustion:
  "((fst (alloc_harq ue sl_tx sl_ack mx s) = None) =
      (free_harq_ids (ues s ! ue) = [] \<or> free_harqs s = [])) \<and>
   (fst (alloc_harq ue sl_tx sl_ack mx s) = None \<longrightarrow> snd (alloc_harq ue sl_tx sl_ack mx s) = s) \<and>
   ((fst (alloc_dl_harq ue sl_tx k1 mx bidx m) = None) =
      (free_harq_ids (ues (dl m) ! ue) = [] \<or> free_harqs (dl m) = [])) \<and>
   (fst (alloc_dl_harq ue sl_tx k1 mx bidx m) = None \<longrightarrow> snd (alloc_dl_harq ue sl_tx k1 mx bidx m) = m) \<and>
   ((fst (alloc_ul_harq ue sl_tx mx m) = None) =
      (free_harq_ids (ues (ul m) ! ue) = [] \<or> free_harqs (ul m) = [])) \<and>
   (fst (alloc_ul_harq ue sl_tx mx m) = None \<longrightarrow> snd (alloc_ul_harq ue sl_tx mx m) = m)"
proof -
  have a: "(fst (alloc_harq u t1 t2 x r) = None) = (free_harq_ids (ues r ! u) = [] \<or> free_harqs r = [])"
    for u t1 t2 x r
    by (auto simp: alloc_harq_def Let_def)
  have b: "fst (alloc_harq u t1 t2 x r) = None \<Longrightarrow> snd (alloc_harq u t1 t2 x r) = r"
    for u t1 t2 x r
    by (auto simp: alloc_harq_def Let_def split: if_splits)
  have c: "fst (alloc_dl_harq ue sl_tx k1 mx bidx m) = None \<longleftrightarrow>
      fst (alloc_harq ue sl_tx (sl_tx + k1) mx (dl m)) = None"
    by (cases "alloc_harq ue sl_tx (sl_tx + k1) mx (dl m)")
       (auto simp: alloc_dl_harq_def new_dl_tx_def split: option.splits)
  have d: "fst (alloc_dl_harq ue sl_tx k1 mx bidx m) = None \<Longrightarrow>
      snd (alloc_dl_harq ue sl_tx k1 mx bidx m) = m"
    by (cases "alloc_harq ue sl_tx (sl_tx + k1) mx (dl m)")
       (auto simp: alloc_dl_harq_def new_dl_tx_def split: option.splits)
  have e: "fst (alloc_ul_harq ue sl_tx mx m) = None \<longleftrightarrow>
      fst (alloc_harq ue sl_tx sl_tx mx (ul m)) = None"
    by (cases "alloc_harq ue sl_tx sl_tx mx (ul m)")
       (auto simp: alloc_ul_harq_def new_ul_tx_def split: option.splits)
  have f: "fst (alloc_ul_harq ue sl_tx mx m) = None \<Longrightarrow> snd (alloc_ul_harq ue sl_tx mx m) = m"
    by (cases "alloc_harq ue sl_tx sl_tx mx (ul m)")
       (auto simp: alloc_ul_harq_def new_ul_tx_def split: option.splits)
  show ?thesis
    using a b c d e f by simp
qed

text \<open>
  The witness: the terminal of \<open>mgr2\<close> has its one downlink process in use, so a second
  downlink allocation fails and changes nothing, while its uplink process is still free.
\<close>

theorem alloc_failure_on_exhaustion_witness:
  "free_harq_ids (ues (dl mgr2) ! 0) = [] \<and>
   fst (alloc_harq 0 101 105 4 (dl mgr2)) = None \<and>
   snd (alloc_harq 0 101 105 4 (dl mgr2)) = dl mgr2 \<and>
   fst (alloc_dl_harq 0 101 4 4 0 mgr2) = None \<and>
   snd (alloc_dl_harq 0 101 4 4 0 mgr2) = mgr2 \<and>
   free_harq_ids (ues (ul mgr2) ! 0) \<noteq> [] \<and> free_harqs (ul mgr2) \<noteq> [] \<and>
   fst (alloc_ul_harq 0 101 4 mgr2) \<noteq> None"
proof -
  have a: "free_harq_ids (ues (dl mgr2) ! 0) = []" by code_simp
  have b: "free_harq_ids (ues (ul mgr2) ! 0) \<noteq> []" by code_simp
  have c: "free_harqs (ul mgr2) \<noteq> []" by code_simp
  from alloc_failure_on_exhaustion [of 0 101 105 4 "dl mgr2" 4 0 mgr2] a b c
  show ?thesis by simp
qed

text \<open>
  C9. \<^verbatim>\<open>add_ue\<close> asserts \<^verbatim>\<open>not contains(ue_idx)\<close>, and \<^verbatim>\<open>contains\<close> looks at the
  terminal's free downlink process ids only. The terminal of \<open>mgr2\<close> is admitted and
  not destroyed, all its downlink processes are allocated, and a second \<^verbatim>\<open>add_ue\<close> for
  it trips no assertion.
\<close>

theorem double_admission_undetected:
  "add_ue 0 1 1 mgr0 = Inr mgr1 \<and>
   add_ue 0 1 1 mgr1 = Inl duplicate_ue_index \<and>
   fst (alloc_dl_harq 0 100 4 4 0 mgr1) = Some 0 \<and>
   contains 0 mgr2 = False \<and>
   add_ue 0 1 1 mgr2 \<noteq> Inl duplicate_ue_index \<and>
   isl (add_ue 0 1 1 mgr2) = False"
  by code_simp

section \<open>Pool conservation\<close>

text \<open>
  C1, as the code has it. After every sequence of repository operations that index the
  vectors in range and trip no assertion, from the constructed repository, the size of the
  global free list plus the number of records in use is the pool capacity. When in
  addition every \<^verbatim>\<open>reserve_ue_harqs\<close> is for a terminal that owns no record in use,
  the number of records in use a terminal owns is at most the budget it reserved last
  (zero once \<^verbatim>\<open>destroy_ue_harqs\<close> removed it).
\<close>

theorem pool_conservation:
  "(run_ops in_range xs (cell_harq_repository_ctor isdl max_ues w) = Some s \<longrightarrow>
      length (free_harqs s) + nof_nonempty s = MAX_NOF_HARQS * max_ues) \<and>
   (run_ops admitted xs (cell_harq_repository_ctor isdl max_ues w) = Some s' \<longrightarrow>
      (\<forall>ue. nof_owned s' ue \<le> budgets no_budget xs ue) \<and>
      length (free_harqs s') + nof_nonempty s' = MAX_NOF_HARQS * max_ues)"
proof (intro conjI impI)
  let ?s0 = "cell_harq_repository_ctor isdl max_ues w"
  have b0: "wf_budget ?s0 no_budget"
    using ctor_wf_budget [of isdl max_ues w] by (simp add: no_budget_def [abs_def])
  {
    assume r: "run_ops in_range xs ?s0 = Some s"
    have "repo_wf s \<and> length (harqs s) = length (harqs ?s0) \<and> length (ues s) = length (ues ?s0)"
      by (rule run_ops_wf [OF ctor_wf _ r]) simp
    then have "repo_wf s" "length (harqs s) = MAX_NOF_HARQS * max_ues"
      by simp_all
    then show "length (free_harqs s) + nof_nonempty s = MAX_NOF_HARQS * max_ues"
      using wf_free_conservation [of s] by (simp add: repo_wf_def)
  }
  {
    assume r: "run_ops admitted xs ?s0 = Some s'"
    from run_ops_wf [OF ctor_wf admitted_in_range r]
    have "repo_wf s'" "length (harqs s') = MAX_NOF_HARQS * max_ues"
      by simp_all
    then show "length (free_harqs s') + nof_nonempty s' = MAX_NOF_HARQS * max_ues"
      using wf_free_conservation [of s'] by (simp add: repo_wf_def)
    from run_ops_wf_budget [OF ctor_wf b0 r] show "\<forall>ue. nof_owned s' ue \<le> budgets no_budget xs ue"
      by (simp add: nof_owned_le_budget)
  }
qed

text \<open>
  The witness: \<open>busy_trace\<close> is admitted on a repository for two terminals.
\<close>

theorem pool_conservation_witness:
  "run_ops in_range busy_trace repo2 \<noteq> None \<and>
   length (free_harqs (the (run_ops in_range busy_trace repo2))) +
     nof_nonempty (the (run_ops in_range busy_trace repo2)) = MAX_NOF_HARQS * 2 \<and>
   run_ops admitted busy_trace repo2 \<noteq> None \<and>
   nof_owned (the (run_ops admitted busy_trace repo2)) 0 \<le> budgets no_budget busy_trace 0 \<and>
   nof_owned (the (run_ops admitted busy_trace repo2)) 1 \<le> budgets no_budget busy_trace 1 \<and>
   nof_owned (the (run_ops admitted busy_trace repo2)) 1 = 1 \<and>
   budgets no_budget busy_trace 1 = 3"
proof -
  have a: "run_ops in_range busy_trace repo2 \<noteq> None" by code_simp
  have b: "run_ops admitted busy_trace repo2 \<noteq> None" by code_simp
  have c: "nof_owned (the (run_ops admitted busy_trace repo2)) 1 = 1" by code_simp
  have d: "budgets no_budget busy_trace 1 = 3" by code_simp
  from a have a': "run_ops in_range busy_trace (cell_harq_repository_ctor True 2 8) =
      Some (the (run_ops in_range busy_trace repo2))"
    by (simp add: repo2_def)
  from b have b': "run_ops admitted busy_trace (cell_harq_repository_ctor True 2 8) =
      Some (the (run_ops admitted busy_trace repo2))"
    by (simp add: repo2_def)
  from pool_conservation [of busy_trace True 2 8 "the (run_ops in_range busy_trace repo2)"
      "the (run_ops admitted busy_trace repo2)"] a' b' a b c d
  show ?thesis by simp
qed

text \<open>
  The claim as stated, for every sequence of the operations, fails: the repository does
  not guard \<^verbatim>\<open>reserve_ue_harqs\<close>. In \<open>double_reserve\<close> a terminal with a budget of
  one process id is reserved again while its process is in use, and then owns two records
  in use.
\<close>

theorem pool_conservation_counterexample:
  "run_ops in_range double_reserve repo1 \<noteq> None \<and>
   budgets no_budget double_reserve 0 = 1 \<and>
   nof_owned (the (run_ops in_range double_reserve repo1)) 0 = 2"
  by code_simp

section \<open>Exclusive membership\<close>

text \<open>
  C2. In every reachable repository state a record that waits for an acknowledgment is
  in the timeout wheel exactly once (in the bucket of its deadline) and not in the
  pending-retransmission list, a record with a retransmission pending is in that list
  exactly once and not in the wheel, and an empty record is in neither.
\<close>

theorem exclusive_membership_reachable:
  "reachable s \<Longrightarrow> exclusive_membership s"
  using reachable_inv [of s] by (simp add: repo_wf_exclusive)

text \<open>
  The witness: after \<open>mgr_trace\<close> the downlink repository has record 0 waiting, record 1
  pending and record 2 empty.
\<close>

theorem exclusive_membership_reachable_witness:
  "run_mgr mgr_trace mgr0 = Some mgr4 \<and>
   exclusive_membership (dl mgr4) \<and>
   status (harqs (dl mgr4) ! 0) = waiting_ack \<and>
   count_list (concat (harq_timeout_wheel (dl mgr4))) 0 = 1 \<and>
   count_list (harq_pending_retx_list (dl mgr4)) 0 = 0 \<and>
   status (harqs (dl mgr4) ! 1) = pending_retx \<and>
   count_list (concat (harq_timeout_wheel (dl mgr4))) 1 = 0 \<and>
   count_list (harq_pending_retx_list (dl mgr4)) 1 = 1 \<and>
   status (harqs (dl mgr4) ! 2) = empty_harq \<and>
   count_list (concat (harq_timeout_wheel (dl mgr4))) 2 = 0 \<and>
   count_list (harq_pending_retx_list (dl mgr4)) 2 = 0"
proof -
  have a: "run_mgr mgr_trace mgr0 \<noteq> None" by code_simp
  then have r: "run_mgr mgr_trace (cell_harq_manager_ctor 1 8 8) = Some mgr4"
    by (simp add: mgr4_def mgr0_def)
  then have "reachable (dl mgr4)" unfolding reachable_def by blast
  from exclusive_membership_reachable [OF this]
  have e: "exclusive_membership (dl mgr4)" .
  have st: "status (harqs (dl mgr4) ! 0) = waiting_ack" "status (harqs (dl mgr4) ! 1) = pending_retx"
    "status (harqs (dl mgr4) ! 2) = empty_harq" "length (harqs (dl mgr4)) = 16"
    by code_simp+
  from e st r show ?thesis
    unfolding exclusive_membership_def by (simp add: mgr0_def)
qed

section \<open>Retry budget\<close>

text \<open>
  C4. For every well-formed repository state (every reachable state is one) and every
  record that waits for an acknowledgment: \<^verbatim>\<open>handle_ack\<close> with a positive
  acknowledgment is \<^verbatim>\<open>dealloc_harq\<close>, after which the record is empty, on the free
  list, and in neither the wheel nor the pending list; with a negative acknowledgment it
  is \<^verbatim>\<open>dealloc_harq\<close> as well when the retransmissions have reached the maximum, and
  otherwise it takes the record from the wheel to the pending-retransmission list with
  status \<open>pending_retx\<close>, the counts untouched. \<^verbatim>\<open>handle_ack\<close> keeps the
  retransmissions of every record in use within its budget, and in every reachable state
  they are within it.
\<close>

theorem retry_budget_enforcement:
  assumes "repo_wf s" "i < length (harqs s)" "status (harqs s ! i) = waiting_ack"
  shows "(handle_ack i True s = Inr (dealloc_harq i s) \<and>
        status (harqs (dealloc_harq i s) ! i) = empty_harq \<and>
        i \<in> set (free_harqs (dealloc_harq i s)) \<and>
        i \<notin> set (concat (harq_timeout_wheel (dealloc_harq i s))) \<and>
        i \<notin> set (harq_pending_retx_list (dealloc_harq i s))) \<and>
     (max_nof_harq_retxs (harqs s ! i) \<le> nof_retxs (harqs s ! i) \<longrightarrow>
        handle_ack i False s = Inr (dealloc_harq i s)) \<and>
     (nof_retxs (harqs s ! i) < max_nof_harq_retxs (harqs s ! i) \<longrightarrow>
        (\<exists>s'. handle_ack i False s = Inr s' \<and> status (harqs s' ! i) = pending_retx \<and>
           i \<notin> set (free_harqs s') \<and> i \<notin> set (concat (harq_timeout_wheel s')) \<and>
           i \<in> set (harq_pending_retx_list s') \<and>
           nof_retxs (harqs s' ! i) = nof_retxs (harqs s ! i) \<and>
           max_nof_harq_retxs (harqs s' ! i) = max_nof_harq_retxs (harqs s ! i))) \<and>
     (\<forall>a s'. retx_within_budget s \<and> handle_ack i a s = Inr s' \<longrightarrow> retx_within_budget s') \<and>
     (reachable s \<longrightarrow> retx_within_budget s)"
proof -
  have ne: "status (harqs s ! i) \<noteq> empty_harq" using assms(3) by simp
  have p: "handle_ack i True s = Inr (dealloc_harq i s) \<and>
        status (harqs (dealloc_harq i s) ! i) = empty_harq \<and>
        i \<in> set (free_harqs (dealloc_harq i s)) \<and>
        i \<notin> set (concat (harq_timeout_wheel (dealloc_harq i s))) \<and>
        i \<notin> set (harq_pending_retx_list (dealloc_harq i s))"
    using handle_ack_release [OF assms(1,2) ne, of True] by simp
  have n: "handle_ack i False s = Inr (dealloc_harq i s)"
    if "max_nof_harq_retxs (harqs s ! i) \<le> nof_retxs (harqs s ! i)"
    using handle_ack_release [OF assms(1,2) ne, of False] that by simp
  have q: "\<exists>s'. handle_ack i False s = Inr s' \<and> status (harqs s' ! i) = pending_retx \<and>
           i \<notin> set (free_harqs s') \<and> i \<notin> set (concat (harq_timeout_wheel s')) \<and>
           i \<in> set (harq_pending_retx_list s') \<and>
           nof_retxs (harqs s' ! i) = nof_retxs (harqs s ! i) \<and>
           max_nof_harq_retxs (harqs s' ! i) = max_nof_harq_retxs (harqs s ! i)"
    if "nof_retxs (harqs s ! i) < max_nof_harq_retxs (harqs s ! i)"
    using handle_ack_pending [OF assms(1,2,3) _ that, of False] by simp
  have k: "\<forall>a s'. retx_within_budget s \<and> handle_ack i a s = Inr s' \<longrightarrow> retx_within_budget s'"
    using handle_ack_retx by blast
  have r: "reachable s \<longrightarrow> retx_within_budget s" using reachable_inv by blast
  from p n q k r show ?thesis by blast
qed

text \<open>
  The witness: in \<open>retx_state\<close> record 0 has used two of its four retransmissions and
  record 1 all three of its three. A positive acknowledgment releases record 0 and a
  negative one makes its retransmission pending; a negative acknowledgment releases
  record 1. The downlink repository of \<open>mgr5\<close> is a reachable state.
\<close>

theorem retry_budget_enforcement_witness:
  "repo_wf retx_state \<and> retx_within_budget retx_state \<and>
   status (harqs retx_state ! 0) = waiting_ack \<and>
   nof_retxs (harqs retx_state ! 0) = 2 \<and> max_nof_harq_retxs (harqs retx_state ! 0) = 4 \<and>
   handle_ack 0 True retx_state = Inr (dealloc_harq 0 retx_state) \<and>
   status (harqs (dealloc_harq 0 retx_state) ! 0) = empty_harq \<and>
   0 \<in> set (free_harqs (dealloc_harq 0 retx_state)) \<and>
   (\<exists>s'. handle_ack 0 False retx_state = Inr s' \<and> status (harqs s' ! 0) = pending_retx \<and>
        0 \<notin> set (free_harqs s') \<and> 0 \<notin> set (concat (harq_timeout_wheel s')) \<and>
        0 \<in> set (harq_pending_retx_list s') \<and> nof_retxs (harqs s' ! 0) = 2 \<and>
        retx_within_budget s') \<and>
   status (harqs retx_state ! 1) = waiting_ack \<and>
   nof_retxs (harqs retx_state ! 1) = 3 \<and> max_nof_harq_retxs (harqs retx_state ! 1) = 3 \<and>
   handle_ack 1 False retx_state = Inr (dealloc_harq 1 retx_state) \<and>
   status (harqs (dealloc_harq 1 retx_state) ! 1) = empty_harq \<and>
   1 \<in> set (free_harqs (dealloc_harq 1 retx_state)) \<and>
   retx_within_budget (dealloc_harq 1 retx_state) \<and>
   reachable (dl mgr5) \<and> status (harqs (dl mgr5) ! 0) = waiting_ack \<and>
   retx_within_budget (dl mgr5)"
proof -
  have a: "run_mgr two_waiting mgr0 \<noteq> None" by code_simp
  then have "run_mgr two_waiting (cell_harq_manager_ctor 1 8 8) = Some mgr5"
    by (simp add: mgr5_def mgr0_def)
  then have r: "reachable (dl mgr5)" unfolding reachable_def by blast
  from reachable_inv [OF r] have w5: "repo_wf (dl mgr5)" and b5: "retx_within_budget (dl mgr5)"
    by simp_all
  have l5: "0 < length (harqs (dl mgr5))" "1 < length (harqs (dl mgr5))" by code_simp+
  have s5: "status (harqs (dl mgr5) ! 0) = waiting_ack" "status (harqs (dl mgr5) ! 1) = waiting_ack"
    by code_simp+
  define s1 where "s1 = (dl mgr5)\<lparr>harqs := (harqs (dl mgr5))[0 := (harqs (dl mgr5) ! 0)\<lparr>nof_retxs := 2\<rparr>]\<rparr>"
  have w1: "repo_wf s1" unfolding s1_def by (rule harqs_upd_wf [OF w5 l5(1)]) simp_all
  have l1: "1 < length (harqs s1)" using l5(2) by (simp add: s1_def)
  have e: "retx_state = s1\<lparr>harqs := (harqs s1)[1 := (harqs s1 ! 1)\<lparr>nof_retxs := 3, max_nof_harq_retxs := 3\<rparr>]\<rparr>"
    using l5 by (simp add: retx_state_def s1_def)
  have w: "repo_wf retx_state" unfolding e by (rule harqs_upd_wf [OF w1 l1]) simp_all
  have l: "0 < length (harqs retx_state)" "1 < length (harqs retx_state)"
    using l5 by (simp_all add: retx_state_def)
  have st: "status (harqs retx_state ! 0) = waiting_ack" "status (harqs retx_state ! 1) = waiting_ack"
    using l5 s5 by (simp_all add: retx_state_def)
  have n0: "nof_retxs (harqs retx_state ! 0) = 2" "max_nof_harq_retxs (harqs retx_state ! 0) = 4"
    by code_simp+
  have n1: "nof_retxs (harqs retx_state ! 1) = 3" "max_nof_harq_retxs (harqs retx_state ! 1) = 3"
    by code_simp+
  have b: "retx_within_budget retx_state"
    unfolding retx_within_budget_def
  proof (intro allI impI)
    fix j
    assume j: "j < length (harqs retx_state)" "status (harqs retx_state ! j) \<noteq> empty_harq"
    show "nof_retxs (harqs retx_state ! j) \<le> max_nof_harq_retxs (harqs retx_state ! j)"
    proof (cases "j = 0 \<or> j = 1")
      case True
      with n0 n1 show ?thesis by auto
    next
      case False
      with j have "harqs retx_state ! j = harqs (dl mgr5) ! j" "j < length (harqs (dl mgr5))"
        by (simp_all add: retx_state_def)
      with b5 j(2) show ?thesis by (simp add: retx_within_budget_def)
    qed
  qed
  from retry_budget_enforcement [OF w l(1) st(1)] retry_budget_enforcement [OF w l(2) st(2)]
    retry_budget_enforcement [OF w5 l5(1) s5(1)] w b st n0 n1 r s5(1)
  show ?thesis by auto
qed

section \<open>A report that is not the last one\<close>

text \<open>
  C7. \<^verbatim>\<open>dl_ack_info\<close> for a downlink record of a reachable repository that waits for
  an acknowledgment and has more than one occasion outstanding returns \<open>no_update\<close>,
  takes one from the outstanding occasions, sets \<^verbatim>\<open>ack_on_timeout\<close> to whether the
  chosen outcome so far is positive, and moves the record in the timeout wheel: its
  deadline is the last slot indicated plus the short timeout constant, and it is in the
  wheel exactly once, in the bucket of that deadline. Every other record and the uplink
  repository are as before.
\<close>

theorem non_final_ack_occasion:
  assumes "reachable (dl m)" "i < length (harqs (dl m))"
    "status (harqs (dl m) ! i) = waiting_ack" "1 < pucch_ack_to_receive (harqs (dl m) ! i)"
  shows "\<exists>m'. dl_ack_info i a snr m = Inr (no_update, m') \<and>
     pucch_ack_to_receive (harqs (dl m') ! i) = pucch_ack_to_receive (harqs (dl m) ! i) - 1 \<and>
     chosen_ack (harqs (dl m') ! i) =
       (if adopts (harqs (dl m) ! i) a snr then a else chosen_ack (harqs (dl m) ! i)) \<and>
     ack_on_timeout (harqs (dl m') ! i) = (chosen_ack (harqs (dl m') ! i) = ack) \<and>
     slot_ack_timeout (harqs (dl m') ! i) = last_sl_tx m + short_ack_timeout_dtx m \<and>
     status (harqs (dl m') ! i) = waiting_ack \<and>
     count_list (concat (harq_timeout_wheel (dl m'))) i = 1 \<and>
     i \<in> set (harq_timeout_wheel (dl m') !
              wheel_slot (dl m') (last_sl_tx m + short_ack_timeout_dtx m)) \<and>
     i \<notin> set (harq_pending_retx_list (dl m')) \<and>
     exclusive_membership (dl m') \<and>
     (\<forall>j < length (harqs (dl m)). j \<noteq> i \<longrightarrow> harqs (dl m') ! j = harqs (dl m) ! j) \<and>
     ul m' = ul m"
proof -
  from reachable_inv [OF assms(1)] have w: "repo_wf (dl m)" by simp
  define h1 where "h1 = merged (harqs (dl m) ! i) a snr"
  note more = dl_ack_info_more [OF assms(3,4), of a snr, folded h1_def]
  then obtain m' where m': "dl_ack_info i a snr m = Inr (no_update, m')"
    and hq: "harqs (dl m') = (harqs (dl m))[i := h1
                \<lparr>pucch_ack_to_receive := pucch_ack_to_receive (harqs (dl m) ! i) - 1,
                 ack_on_timeout := (chosen_ack h1 = ack),
                 slot_ack_timeout := last_sl_tx m + short_ack_timeout_dtx m\<rparr>]"
    and ul: "ul m' = ul m"
    by simp
  from dl_ack_info_wf [OF w assms(2) m'] have w': "repo_wf (dl m')" by simp
  have i': "i < length (harqs (dl m'))" using assms(2) hq by simp
  have f: "pucch_ack_to_receive (harqs (dl m') ! i) = pucch_ack_to_receive (harqs (dl m) ! i) - 1"
    "chosen_ack (harqs (dl m') ! i) = chosen_ack h1"
    "ack_on_timeout (harqs (dl m') ! i) = (chosen_ack h1 = ack)"
    "slot_ack_timeout (harqs (dl m') ! i) = last_sl_tx m + short_ack_timeout_dtx m"
    "status (harqs (dl m') ! i) = waiting_ack"
    using assms(2,3) by (simp_all add: hq h1_def)
  have ch: "chosen_ack h1 = (if adopts (harqs (dl m) ! i) a snr then a else chosen_ack (harqs (dl m) ! i))"
    by (simp add: h1_def merged_def)
  note e = repo_wf_exclusive [OF w']
  from e i' f(4,5)
  have c: "count_list (concat (harq_timeout_wheel (dl m'))) i = 1"
    "i \<in> set (harq_timeout_wheel (dl m') ! wheel_slot (dl m') (last_sl_tx m + short_ack_timeout_dtx m))"
    unfolding exclusive_membership_def by auto
  from wf_membership [OF w' i'] f(5) have p: "i \<notin> set (harq_pending_retx_list (dl m'))" by simp
  have o: "\<forall>j < length (harqs (dl m)). j \<noteq> i \<longrightarrow> harqs (dl m') ! j = harqs (dl m) ! j"
    by (simp add: hq)
  from m' f ch c p e o ul show ?thesis by auto
qed

text \<open>
  The witness: the first report for record 0 of \<open>mgr5\<close>, whose deadline was slot 112, at
  slot 102 with a short timeout of 8 slots.
\<close>

theorem non_final_ack_occasion_witness:
  "reachable (dl mgr5) \<and>
   status (harqs (dl mgr5) ! 0) = waiting_ack \<and>
   pucch_ack_to_receive (harqs (dl mgr5) ! 0) = 2 \<and>
   slot_ack_timeout (harqs (dl mgr5) ! 0) = 112 \<and>
   last_sl_tx mgr5 = 102 \<and> short_ack_timeout_dtx mgr5 = 8 \<and>
   (\<exists>m'. dl_ack_info 0 ack (Some 5) mgr5 = Inr (no_update, m') \<and>
     pucch_ack_to_receive (harqs (dl m') ! 0) = 1 \<and>
     chosen_ack (harqs (dl m') ! 0) = ack \<and>
     ack_on_timeout (harqs (dl m') ! 0) = True \<and>
     slot_ack_timeout (harqs (dl m') ! 0) = 110 \<and>
     status (harqs (dl m') ! 0) = waiting_ack \<and>
     count_list (concat (harq_timeout_wheel (dl m'))) 0 = 1 \<and>
     0 \<in> set (harq_timeout_wheel (dl m') ! wheel_slot (dl m') 110) \<and>
     harqs (dl m') ! 1 = harqs (dl mgr5) ! 1)"
proof -
  have a: "run_mgr two_waiting mgr0 \<noteq> None" by code_simp
  then have "run_mgr two_waiting (cell_harq_manager_ctor 1 8 8) = Some mgr5"
    by (simp add: mgr5_def mgr0_def)
  then have r: "reachable (dl mgr5)" unfolding reachable_def by blast
  have l: "0 < length (harqs (dl mgr5))" "1 < length (harqs (dl mgr5))" by code_simp+
  have s0: "status (harqs (dl mgr5) ! 0) = waiting_ack" by code_simp
  have p0: "pucch_ack_to_receive (harqs (dl mgr5) ! 0) = 2" by code_simp
  have t0: "slot_ack_timeout (harqs (dl mgr5) ! 0) = 112" by code_simp
  have c: "last_sl_tx mgr5 = 102" "short_ack_timeout_dtx mgr5 = 8" by code_simp+
  have ad: "adopts (harqs (dl mgr5) ! 0) ack (Some 5)" by code_simp
  have gt: "1 < pucch_ack_to_receive (harqs (dl mgr5) ! 0)" using p0 by simp
  from non_final_ack_occasion [OF r l(1) s0 gt, of ack "Some 5"] r s0 p0 t0 c ad l
  show ?thesis by auto
qed

section \<open>Timeout\<close>

text \<open>
  C3, as the code has it. A manager is constructed with a maximum wait of \<open>w\<close> slots
  and run; then a downlink or an uplink process is allocated for a terminal. The record
  waits for its acknowledgment with the deadline \<open>dline\<close>, which is \<open>w\<close> slots after
  the acknowledgment slot (the transmission slot plus \<open>k1\<close> in the downlink, the
  transmission slot in the uplink); it is queued at the front of the wheel bucket
  \<open>dline mod 40\<close>, and the free list is one shorter. After any run of manager
  operations with no acknowledgment or CRC report for the record, no removal of its
  terminal and no indication of a slot congruent to \<open>dline\<close> modulo the ring size of 40,
  the record still waits with that deadline and is in its bucket once. When then a slot
  \<open>t\<close> congruent to \<open>dline\<close> modulo 40 is indicated (the deadline itself is one) and
  the record is the front one of its bucket, the call returns the record to the free
  list, takes it out of the wheel and reports it to the timeout notifier exactly once, as
  (terminal, direction, false); with a maximum wait of one slot nothing is reported and the
  record is released all the same. Nothing is said here of a record that is queued behind
  the front of its bucket when the slot is indicated.
\<close>

theorem timeout_liveness:
  assumes "run_mgr ys (cell_harq_manager_ctor n w t0) = Some m" "ue < n"
    "(if d then alloc_dl_harq ue sl_tx k1 mx bidx m else alloc_ul_harq ue sl_tx mx m) = (Some r, m1)"
    "dline = (if d then sl_tx + k1 else sl_tx) + w"
    "run_mgr xs m1 = Some m2" "list_all (leaves_waiting d r ue dline) xs"
    "t mod RING_SIZE = dline mod RING_SIZE"
    "hd (harq_timeout_wheel (repo_of d m2) ! (t mod RING_SIZE)) = r"
  shows "waits_for (repo_of d m1) r ue dline \<and>
     hd (harq_timeout_wheel (repo_of d m1) ! (dline mod RING_SIZE)) = r \<and>
     length (free_harqs (repo_of d m1)) + 1 = length (free_harqs (repo_of d m)) \<and>
     waits_for (repo_of d m2) r ue dline \<and>
     count_list (harq_timeout_wheel (repo_of d m2) ! (t mod RING_SIZE)) r = 1 \<and>
     (\<exists>m3. mgr_slot_indication t m2 = Inr m3 \<and>
        status (harqs (repo_of d m3) ! r) = empty_harq \<and>
        free_harqs (repo_of d m3) = free_harqs (repo_of d m2) @ [r] \<and>
        r \<notin> set (concat (harq_timeout_wheel (repo_of d m3))) \<and>
        timeouts_notified (repo_of d m3) = timeouts_notified (repo_of d m2) @
          (if w = 1 then [] else [(ue, d, False)]))"
proof -
  from run_mgr_inv [OF ctor_mgr_inv assms(1)]
  have i: "mgr_inv m" and lu: "length (ues (dl m)) = n" "length (ues (ul m)) = n"
    by (simp_all add: cell_harq_manager_ctor_def)
  then have wd: "repo_wf (dl m)" and wu: "repo_wf (ul m)" by (simp_all add: mgr_inv_def)
  note c = reached_config [OF assms(1)]
  have a: "waits_for (repo_of d m1) r ue dline
      \<and> hd (harq_timeout_wheel (repo_of d m1) ! (dline mod RING_SIZE)) = r
      \<and> length (free_harqs (repo_of d m1)) + 1 = length (free_harqs (repo_of d m))
      \<and> apply_mgr_op (if d then AllocDlHarq ue sl_tx k1 mx bidx else AllocUlHarq ue sl_tx mx) m = Inr m1"
  proof (cases d)
    case True
    with assms(3) have al: "alloc_dl_harq ue sl_tx k1 mx bidx m = (Some r, m1)" by simp
    from c(2) [of True] have "max_ack_wait_in_slots (dl m) = w" by (simp add: repo_of_def)
    with alloc_dl_harq_waits [OF wd al] True assms(4) al show ?thesis
      by (simp add: repo_of_def)
  next
    case False
    with assms(3) have al: "alloc_ul_harq ue sl_tx mx m = (Some r, m1)" by simp
    from c(2) [of False] have "max_ack_wait_in_slots (ul m) = w" by (simp add: repo_of_def)
    with alloc_ul_harq_waits [OF wu al] False assms(4) al show ?thesis
      by (simp add: repo_of_def)
  qed
  have "mgr_in_range m (if d then AllocDlHarq ue sl_tx k1 mx bidx else AllocUlHarq ue sl_tx mx)"
    using assms(2) lu by simp
  from apply_mgr_op_inv [OF i this] a have i1: "mgr_inv m1" by blast
  from a have ap: "apply_mgr_op (if d then AllocDlHarq ue sl_tx k1 mx bidx
      else AllocUlHarq ue sl_tx mx) m = Inr m1"
    by blast
  from apply_mgr_op_config [OF ap] c [of d]
  have c1: "is_dl (repo_of d m1) = d" "max_ack_wait_in_slots (repo_of d m1) = w"
    by (simp_all add: repo_of_def split: if_splits)
  from a have k1: "waits_for (repo_of d m1) r ue dline" by simp
  from run_mgr_keeps [OF i1 assms(5,6) k1]
  have i2: "mgr_inv m2" and k2: "waits_for (repo_of d m2) r ue dline" by simp_all
  from run_mgr_config [OF assms(5)] c1
  have c2: "is_dl (repo_of d m2) = d" "max_ack_wait_in_slots (repo_of d m2) = w"
    by (simp_all add: repo_of_def split: if_splits)
  from i2 have w2: "repo_wf (dl m2)" "repo_wf (ul m2)" by (simp_all add: mgr_inv_def)
  then have wr: "repo_wf (repo_of d m2)" by (simp add: repo_of_def)
  note f = front_timeout [OF wr k2 assms(7,8)]
  from f(2) obtain q where q: "slot_indication t (repo_of d m2) = Inr q"
    "status (harqs q ! r) = empty_harq" "free_harqs q = free_harqs (repo_of d m2) @ [r]"
    "r \<notin> set (concat (harq_timeout_wheel q))"
    "timeouts_notified q = timeouts_notified (repo_of d m2) @
         (if w = 1 then [] else [(ue, d, False)])"
    unfolding c2 by blast
  from slot_indication_wf [OF w2(1), of t] obtain qd where qd: "slot_indication t (dl m2) = Inr qd"
    by blast
  from slot_indication_wf [OF w2(2), of t] obtain qu where qu: "slot_indication t (ul m2) = Inr qu"
    by blast
  have ms: "mgr_slot_indication t m2 = Inr (m2\<lparr>last_sl_tx := t, dl := qd, ul := qu\<rparr>)"
    by (simp add: mgr_slot_indication_def qd qu)
  have "repo_of d (m2\<lparr>last_sl_tx := t, dl := qd, ul := qu\<rparr>) = q"
    using q(1) qd qu by (cases d) (simp_all add: repo_of_def)
  with ms q(2,3,4,5)
  have "\<exists>m3. mgr_slot_indication t m2 = Inr m3 \<and>
        status (harqs (repo_of d m3) ! r) = empty_harq \<and>
        free_harqs (repo_of d m3) = free_harqs (repo_of d m2) @ [r] \<and>
        r \<notin> set (concat (harq_timeout_wheel (repo_of d m3))) \<and>
        timeouts_notified (repo_of d m3) = timeouts_notified (repo_of d m2) @
          (if w = 1 then [] else [(ue, d, False)])"
    by simp
  with a k2 f(1) show ?thesis by blast
qed

text \<open>
  The witness. With a maximum wait of 8 slots a downlink process is allocated at slot 100
  with \<open>k1 = 4\<close>: the deadline is slot 112. While it waits, the operations of
  \<open>busy_wait\<close> run; then \<^verbatim>\<open>slot_indication(112)\<close> reports the timeout once, with
  the positive acknowledgment not assumed, and brings the free list back to its size
  before the allocation. With a maximum wait of one slot the deadline is slot 105 and
  nothing is reported. An uplink process allocated at slot 100 with a maximum wait of 8
  slots has the deadline 108.
\<close>

theorem timeout_liveness_witness:
  "run_mgr [AddUe 0 2 2] (cell_harq_manager_ctor 1 8 8) = Some (tmo_mgr 8) \<and>
   alloc_dl_harq 0 100 4 4 0 (tmo_mgr 8) = (Some 0, dl_allocated 8 4) \<and>
   slot_ack_timeout (harqs (dl (dl_allocated 8 4)) ! 0) = 112 \<and>
   run_mgr busy_wait (dl_allocated 8 4) = Some dl_waited \<and>
   list_all (leaves_waiting True 0 0 112) busy_wait \<and>
   status (harqs (dl dl_waited) ! 0) = waiting_ack \<and>
   (\<exists>m3. mgr_slot_indication 112 dl_waited = Inr m3 \<and>
      status (harqs (dl m3) ! 0) = empty_harq \<and>
      length (free_harqs (dl m3)) = length (free_harqs (dl (tmo_mgr 8))) \<and>
      timeouts_notified (dl m3) = [(0, True, False)]) \<and>
   run_mgr [AddUe 0 2 2] (cell_harq_manager_ctor 1 1 8) = Some (tmo_mgr 1) \<and>
   alloc_dl_harq 0 100 4 4 0 (tmo_mgr 1) = (Some 0, dl_allocated 1 4) \<and>
   slot_ack_timeout (harqs (dl (dl_allocated 1 4)) ! 0) = 105 \<and>
   run_mgr (slots 101 105) (dl_allocated 1 4) = Some dl_waited_one \<and>
   (\<exists>m3. mgr_slot_indication 105 dl_waited_one = Inr m3 \<and>
      status (harqs (dl m3) ! 0) = empty_harq \<and>
      length (free_harqs (dl m3)) = length (free_harqs (dl (tmo_mgr 1))) \<and>
      timeouts_notified (dl m3) = []) \<and>
   alloc_ul_harq 0 100 4 (tmo_mgr 8) = (Some 0, ul_allocated 8) \<and>
   slot_ack_timeout (harqs (ul (ul_allocated 8)) ! 0) = 108 \<and>
   run_mgr (slots 101 108) (ul_allocated 8) = Some ul_waited \<and>
   (\<exists>m3. mgr_slot_indication 108 ul_waited = Inr m3 \<and>
      status (harqs (ul m3) ! 0) = empty_harq \<and>
      length (free_harqs (ul m3)) = length (free_harqs (ul (tmo_mgr 8))) \<and>
      timeouts_notified (ul m3) = [(0, False, False)])"
proof -
  have n8: "run_mgr [AddUe 0 2 2] (cell_harq_manager_ctor 1 8 8) \<noteq> None"
    and n1: "run_mgr [AddUe 0 2 2] (cell_harq_manager_ctor 1 1 8) \<noteq> None"
    by code_simp+
  then have r8: "run_mgr [AddUe 0 2 2] (cell_harq_manager_ctor 1 8 8) = Some (tmo_mgr 8)"
    and r1: "run_mgr [AddUe 0 2 2] (cell_harq_manager_ctor 1 1 8) = Some (tmo_mgr 1)"
    unfolding tmo_mgr_def by simp_all
  have f8: "fst (alloc_dl_harq 0 100 4 4 0 (tmo_mgr 8)) = Some 0"
    and f1: "fst (alloc_dl_harq 0 100 4 4 0 (tmo_mgr 1)) = Some 0"
    and fu: "fst (alloc_ul_harq 0 100 4 (tmo_mgr 8)) = Some 0"
    by code_simp+
  have a8: "alloc_dl_harq 0 100 4 4 0 (tmo_mgr 8) = (Some 0, dl_allocated 8 4)"
    using f8 unfolding dl_allocated_def by (simp add: prod_eq_iff)
  have a1: "alloc_dl_harq 0 100 4 4 0 (tmo_mgr 1) = (Some 0, dl_allocated 1 4)"
    using f1 unfolding dl_allocated_def by (simp add: prod_eq_iff)
  have au: "alloc_ul_harq 0 100 4 (tmo_mgr 8) = (Some 0, ul_allocated 8)"
    using fu unfolding ul_allocated_def by (simp add: prod_eq_iff)
  have "run_mgr busy_wait (dl_allocated 8 4) \<noteq> None"
    and "run_mgr (slots 101 105) (dl_allocated 1 4) \<noteq> None"
    and "run_mgr (slots 101 108) (ul_allocated 8) \<noteq> None"
    by code_simp+
  then have x8: "run_mgr busy_wait (dl_allocated 8 4) = Some dl_waited"
    and x1: "run_mgr (slots 101 105) (dl_allocated 1 4) = Some dl_waited_one"
    and xu: "run_mgr (slots 101 108) (ul_allocated 8) = Some ul_waited"
    unfolding dl_waited_def dl_waited_one_def ul_waited_def by simp_all
  have l8: "list_all (leaves_waiting True 0 0 112) busy_wait"
    and l1: "list_all (leaves_waiting True 0 0 105) (slots 101 105)"
    and lu: "list_all (leaves_waiting False 0 0 108) (slots 101 108)"
    by code_simp+
  have h8: "hd (harq_timeout_wheel (repo_of True dl_waited) ! (112 mod RING_SIZE)) = 0"
    and h1: "hd (harq_timeout_wheel (repo_of True dl_waited_one) ! (105 mod RING_SIZE)) = 0"
    and hu: "hd (harq_timeout_wheel (repo_of False ul_waited) ! (108 mod RING_SIZE)) = 0"
    by code_simp+
  have b8: "timeouts_notified (dl dl_waited) = []" "length (free_harqs (dl dl_waited)) = 15"
    "length (free_harqs (dl (tmo_mgr 8))) = 16"
    and b1: "timeouts_notified (dl dl_waited_one) = []" "length (free_harqs (dl dl_waited_one)) = 15"
    "length (free_harqs (dl (tmo_mgr 1))) = 16"
    and bu: "timeouts_notified (ul ul_waited) = []" "length (free_harqs (ul ul_waited)) = 15"
    "length (free_harqs (ul (tmo_mgr 8))) = 16"
    by code_simp+
  from timeout_liveness [of "[AddUe 0 2 2]" 1 8 8 "tmo_mgr 8" 0 True 100 4 4 0 0 "dl_allocated 8 4"
      112 busy_wait dl_waited 112, OF r8 _ _ _ x8 l8 _ h8] a8 b8
  have c8: "slot_ack_timeout (harqs (dl (dl_allocated 8 4)) ! 0) = 112"
    "status (harqs (dl dl_waited) ! 0) = waiting_ack"
    "\<exists>m3. mgr_slot_indication 112 dl_waited = Inr m3 \<and>
      status (harqs (dl m3) ! 0) = empty_harq \<and>
      length (free_harqs (dl m3)) = length (free_harqs (dl (tmo_mgr 8))) \<and>
      timeouts_notified (dl m3) = [(0, True, False)]"
    by (auto simp: repo_of_def waits_for_def)
  from timeout_liveness [of "[AddUe 0 2 2]" 1 1 8 "tmo_mgr 1" 0 True 100 4 4 0 0 "dl_allocated 1 4"
      105 "slots 101 105" dl_waited_one 105, OF r1 _ _ _ x1 l1 _ h1] a1 b1
  have c1: "slot_ack_timeout (harqs (dl (dl_allocated 1 4)) ! 0) = 105"
    "\<exists>m3. mgr_slot_indication 105 dl_waited_one = Inr m3 \<and>
      status (harqs (dl m3) ! 0) = empty_harq \<and>
      length (free_harqs (dl m3)) = length (free_harqs (dl (tmo_mgr 1))) \<and>
      timeouts_notified (dl m3) = []"
    by (auto simp: repo_of_def waits_for_def)
  from timeout_liveness [of "[AddUe 0 2 2]" 1 8 8 "tmo_mgr 8" 0 False 100 0 4 0 0 "ul_allocated 8"
      108 "slots 101 108" ul_waited 108, OF r8 _ _ _ xu lu _ hu] au bu
  have cu: "slot_ack_timeout (harqs (ul (ul_allocated 8)) ! 0) = 108"
    "\<exists>m3. mgr_slot_indication 108 ul_waited = Inr m3 \<and>
      status (harqs (ul m3) ! 0) = empty_harq \<and>
      length (free_harqs (ul m3)) = length (free_harqs (ul (tmo_mgr 8))) \<and>
      timeouts_notified (ul m3) = [(0, False, False)]"
    by (auto simp: repo_of_def waits_for_def)
  from r8 a8 c8 x8 l8 r1 a1 c1 x1 au cu xu show ?thesis by blast
qed

text \<open>
  The claim as stated fails: a bucket of the wheel is visited every 40 slots, and the
  timeout handler does not compare the deadline of the record with the slot indicated.
  With a maximum wait of 30 slots, a downlink process allocated at slot 100 with
  \<open>k1 = 15\<close> has the deadline 145 and is queued in bucket 25; when the slots are
  indicated one by one, \<^verbatim>\<open>slot_indication(105)\<close> visits that bucket, releases the
  record and reports the timeout, 40 slots before the deadline.
\<close>

theorem timeout_liveness_counterexample:
  "max_ack_wait_in_slots (dl (tmo_mgr 30)) = 30 \<and>
   fst (alloc_dl_harq 0 100 15 4 0 (tmo_mgr 30)) = Some 0 \<and>
   slot_ack_timeout (harqs (dl (dl_allocated 30 15)) ! 0) = 145 \<and>
   run_mgr (slots 101 105) (dl_allocated 30 15) \<noteq> None \<and>
   status (harqs (dl dl_waited_long) ! 0) = waiting_ack \<and>
   timeouts_notified (dl dl_waited_long) = [] \<and>
   isl (mgr_slot_indication 105 dl_waited_long) = False \<and>
   status (harqs (dl (projr (mgr_slot_indication 105 dl_waited_long))) ! 0) = empty_harq \<and>
   0 \<in> set (free_harqs (dl (projr (mgr_slot_indication 105 dl_waited_long)))) \<and>
   timeouts_notified (dl (projr (mgr_slot_indication 105 dl_waited_long))) = [(0, True, False)]"
  by code_simp

section \<open>The new-data indicator\<close>

text \<open>
  C10. \<^verbatim>\<open>alloc_harq\<close> returns the record at the back of the global free list and sets
  its new-data indicator to the negation of what that array slot held;
  \<^verbatim>\<open>dealloc_harq\<close> and \<^verbatim>\<open>destroy_ue_harqs\<close> leave the indicator of every record as
  it is. So the indicator toggles per array slot and not per (terminal, process id): in
  the run \<open>ndi_first\<close>, \<open>ndi_between\<close>, \<open>ndi_second\<close> the process 0 of terminal
  0 is allocated, released and allocated again, and both allocations carry the indicator
  \<open>True\<close>.
\<close>

theorem ndi_per_pool_record:
  "(fst (alloc_harq ue sl_tx sl_ack mx s) = Some r \<and> r < length (harqs s) \<longrightarrow>
      r = last (free_harqs s) \<and>
      ndi (harqs (snd (alloc_harq ue sl_tx sl_ack mx s)) ! r) = (\<not> ndi (harqs s ! r))) \<and>
   (\<forall>j < length (harqs s). ndi (harqs (dealloc_harq i s) ! j) = ndi (harqs s ! j)) \<and>
   (\<forall>j < length (harqs s). ndi (harqs (destroy_ue_harqs u s) ! j) = ndi (harqs s ! j)) \<and>
   run_ops admitted (ndi_first @ ndi_between @ ndi_second) repo2 \<noteq> None \<and>
   ndi_of_process (the (run_ops admitted ndi_first repo2)) 0 0 = Some True \<and>
   ndi_of_process (the (run_ops admitted (ndi_first @ ndi_between) repo2)) 0 0 = None \<and>
   ndi_of_process (the (run_ops admitted (ndi_first @ ndi_between @ ndi_second) repo2)) 0 0 = Some True"
proof -
  have a: "fst (alloc_harq ue sl_tx sl_ack mx s) = Some r \<and> r < length (harqs s) \<longrightarrow>
      r = last (free_harqs s) \<and>
      ndi (harqs (snd (alloc_harq ue sl_tx sl_ack mx s)) ! r) = (\<not> ndi (harqs s ! r))"
    using alloc_ndi [of ue sl_tx sl_ack mx s r] by blast
  have b: "\<forall>j < length (harqs s). ndi (harqs (dealloc_harq i s) ! j) = ndi (harqs s ! j)"
    by (simp add: dealloc_ndi)
  have c: "\<forall>j < length (harqs s). ndi (harqs (destroy_ue_harqs u s) ! j) = ndi (harqs s ! j)"
    by (simp add: destroy_ndi)
  have d: "run_ops admitted (ndi_first @ ndi_between @ ndi_second) repo2 \<noteq> None"
    by code_simp
  have e: "ndi_of_process (the (run_ops admitted ndi_first repo2)) 0 0 = Some True"
    by code_simp
  have f: "ndi_of_process (the (run_ops admitted (ndi_first @ ndi_between) repo2)) 0 0 = None"
    by code_simp
  have g: "ndi_of_process (the (run_ops admitted (ndi_first @ ndi_between @ ndi_second) repo2)) 0 0
      = Some True"
    by code_simp
  from a b c d e f g show ?thesis by blast
qed

text \<open>
  The witness: the second allocation of that process takes array slot 1, whose indicator
  was \<open>False\<close>.
\<close>

theorem ndi_per_pool_record_witness:
  "fst (alloc_harq 0 30 34 4 (the (run_ops admitted (ndi_first @ ndi_between) repo2))) = Some 1 \<and>
   1 < length (harqs (the (run_ops admitted (ndi_first @ ndi_between) repo2))) \<and>
   last (free_harqs (the (run_ops admitted (ndi_first @ ndi_between) repo2))) = 1 \<and>
   ndi (harqs (the (run_ops admitted (ndi_first @ ndi_between) repo2)) ! 1) = False \<and>
   ndi (harqs (snd (alloc_harq 0 30 34 4
      (the (run_ops admitted (ndi_first @ ndi_between) repo2)))) ! 1) = True \<and>
   ndi (harqs (the (run_ops admitted (ndi_first @ ndi_between) repo2)) ! 0) = True \<and>
   ndi (harqs (dealloc_harq 0 (the (run_ops admitted (ndi_first @ ndi_between) repo2))) ! 0) = True \<and>
   ndi (harqs (destroy_ue_harqs 0 (the (run_ops admitted (ndi_first @ ndi_between) repo2))) ! 0) = True"
proof -
  let ?s = "the (run_ops admitted (ndi_first @ ndi_between) repo2)"
  have a: "fst (alloc_harq 0 30 34 4 ?s) = Some 1" by code_simp
  have l1: "1 < length (harqs ?s)" by code_simp
  have l0: "0 < length (harqs ?s)" by code_simp
  have n1: "ndi (harqs ?s ! 1) = False" by code_simp
  have n0: "ndi (harqs ?s ! 0) = True" by code_simp
  note T = ndi_per_pool_record [of 0 30 34 4 ?s 1 0 0]
  from T a l1 have p1: "1 = last (free_harqs ?s)" by blast
  from T a l1 have p2: "ndi (harqs (snd (alloc_harq 0 30 34 4 ?s)) ! 1) = (\<not> ndi (harqs ?s ! 1))"
    by blast
  from T l0 have q1: "ndi (harqs (dealloc_harq 0 ?s) ! 0) = ndi (harqs ?s ! 0)" by blast
  from T l0 have q2: "ndi (harqs (destroy_ue_harqs 0 ?s) ! 0) = ndi (harqs ?s ! 0)" by blast
  from p2 have p3: "ndi (harqs (snd (alloc_harq 0 30 34 4 ?s)) ! 1) = True"
    unfolding n1 by simp
  from q1 have q3: "ndi (harqs (dealloc_harq 0 ?s) ! 0) = True" unfolding n0 .
  from q2 have q4: "ndi (harqs (destroy_ue_harqs 0 ?s) ! 0) = True" unfolding n0 .
  from p1 have p4: "last (free_harqs ?s) = 1" by (rule sym)
  show ?thesis
    by (intro conjI a l1 p4 n1 p3 n0 q3 q4)
qed

section \<open>The codebook merge\<close>



end
